theory Spec2Isabelle
  imports Complex_Main "HOL-Library.Product_Lexorder"
begin

section \<open>Signal-to-foF2 estimator\<close>

text \<open>
  Python floats are modelled as real numbers throughout.  \<open>np.clip(a, lo, hi)\<close> is
  \<open>minimum(maximum(a, lo), hi)\<close>.
\<close>

definition np_clip :: "real \<Rightarrow> real \<Rightarrow> real \<Rightarrow> real" where
  "np_clip a a_min a_max = min (max a a_min) a_max"

text \<open>\<open>calculate_fof2_from_signal\<close> of \<open>src/analysis/darwin_april15_fof2_7years.py\<close>.\<close>

definition darwin_calculate_fof2_from_signal :: "real \<Rightarrow> real \<Rightarrow> real" where
  "darwin_calculate_fof2_from_signal signal_db frequency_mhz =
     (let baseline_fof2 = 9.0;
          signal_factor = signal_db / 12.0;
          estimated_fof2 = baseline_fof2 + signal_factor
      in np_clip estimated_fof2 3.0 15.0)"

text \<open>\<open>calculate_fof2_from_signal\<close> of \<open>src/analysis/guam_fof2_april.py\<close>.\<close>

definition guam_calculate_fof2_from_signal :: "real \<Rightarrow> real \<Rightarrow> real" where
  "guam_calculate_fof2_from_signal signal_db frequency_mhz =
     (let baseline_fof2 = 10.5;
          signal_factor = signal_db / 10.0;
          estimated_fof2 = baseline_fof2 + signal_factor
      in np_clip estimated_fof2 4.0 18.0)"

text \<open>
  The estimator as the specification words it:
  \<open>estimate(signal, baseline, scale, min, max) = clamp(baseline + signal/scale, min, max)\<close>,
  where \<open>clamp\<close> replaces a value below the lower bound by the lower bound and a value
  above the upper bound by the upper bound.
\<close>

definition spec_clamp :: "real \<Rightarrow> real \<Rightarrow> real \<Rightarrow> real" where
  "spec_clamp x lo hi = (if x < lo then lo else if hi < x then hi else x)"

definition spec_estimate :: "real \<Rightarrow> real \<Rightarrow> real \<Rightarrow> real \<Rightarrow> real \<Rightarrow> real" where
  "spec_estimate signal baseline scale lo hi = spec_clamp (baseline + signal / scale) lo hi"

section \<open>Python numerics and the datetime library\<close>

text \<open>
  Errors are values: every function of the source that can raise returns
  \<open>py_error + 'a\<close>, with \<open>Inl\<close> for the exception.
\<close>

datatype py_error = ValueError | OverflowError | ZeroDivisionError | KeyError

text \<open>\<open>int(x)\<close> on a float truncates towards zero.\<close>

definition py_int :: "real \<Rightarrow> int" where
  "py_int x = (if 0 \<le> x then \<lfloor>x\<rfloor> else \<lceil>x\<rceil>)"

text \<open>\<open>round(x)\<close> with one argument returns the nearest integer, ties to even.\<close>

definition py_round :: "real \<Rightarrow> int" where
  "py_round x =
     (let f = \<lfloor>x\<rfloor>; r = x - of_int f
      in if r < 1/2 then f else if 1/2 < r then f + 1 else if even f then f else f + 1)"

text \<open>\<open>x % y\<close> on floats takes the sign of the divisor.\<close>

definition py_mod :: "real \<Rightarrow> real \<Rightarrow> real" where
  "py_mod x y = x - y * of_int \<lfloor>x / y\<rfloor>"

text \<open>\<open>math.asin\<close> and \<open>math.acos\<close> raise \<open>ValueError\<close> outside \<open>[-1, 1]\<close>.\<close>

definition py_asin :: "real \<Rightarrow> py_error + real" where
  "py_asin x = (if -1 \<le> x \<and> x \<le> 1 then Inr (arcsin x) else Inl ValueError)"

definition py_acos :: "real \<Rightarrow> py_error + real" where
  "py_acos x = (if -1 \<le> x \<and> x \<le> 1 then Inr (arccos x) else Inl ValueError)"

definition py_atan2 :: "real \<Rightarrow> real \<Rightarrow> real" where
  "py_atan2 y x =
     (if 0 < x then arctan (y / x)
      else if x < 0 then (if 0 \<le> y then arctan (y / x) + pi else arctan (y / x) - pi)
      else if 0 < y then pi / 2 else if y < 0 then - (pi / 2) else 0)"

text \<open>A \<open>datetime.date\<close>: the fields the source reads.\<close>

record date =
  year :: int
  month :: int
  day :: int

text \<open>
  The calendar arithmetic of Python's \<open>datetime\<close> module (proleptic Gregorian):
  \<open>_is_leap\<close>, \<open>_days_before_year\<close>, \<open>_days_in_month\<close>, \<open>_days_before_month\<close> and
  \<open>_ymd2ord\<close>; ordinal 1 is 0001-01-01.
\<close>

definition is_leap :: "int \<Rightarrow> bool" where
  "is_leap y = (y mod 4 = 0 \<and> (y mod 100 \<noteq> 0 \<or> y mod 400 = 0))"

definition days_before_year :: "int \<Rightarrow> int" where
  "days_before_year y = (let y1 = y - 1 in y1 * 365 + y1 div 4 - y1 div 100 + y1 div 400)"

definition days_in_month :: "int \<Rightarrow> int \<Rightarrow> int" where
  "days_in_month y m =
     (if m = 2 \<and> is_leap y then 29
      else [0, 31, 28, 31, 30, 31, 30, 31, 31, 30, 31, 30, 31] ! nat m)"

definition days_before_month :: "int \<Rightarrow> int \<Rightarrow> int" where
  "days_before_month y m =
     [0, 0, 31, 59, 90, 120, 151, 181, 212, 243, 273, 304, 334] ! nat m
       + (if 2 < m \<and> is_leap y then 1 else 0)"

definition ymd2ord :: "int \<Rightarrow> int \<Rightarrow> int \<Rightarrow> int" where
  "ymd2ord y m d = days_before_year y + days_before_month y m + d"

text \<open>The dates that \<open>date(y, m, d)\<close> and \<open>datetime(y, m, d)\<close> accept.\<close>

definition valid_ymd :: "int \<Rightarrow> int \<Rightarrow> int \<Rightarrow> bool" where
  "valid_ymd y m d =
     (1 \<le> y \<and> y \<le> 9999 \<and> 1 \<le> m \<and> m \<le> 12 \<and> 1 \<le> d \<and> d \<le> days_in_month y m)"

definition valid_date :: "date \<Rightarrow> bool" where
  "valid_date d = valid_ymd (year d) (month d) (day d)"

definition toordinal :: "date \<Rightarrow> int" where
  "toordinal d = ymd2ord (year d) (month d) (day d)"

text \<open>
  A \<open>datetime\<close> (and a pandas \<open>Timestamp\<close>) with whole seconds is represented by the
  number \<open>86400 * ordinal + second of the day\<close>; comparison of datetimes is comparison
  of these numbers.  \<open>datetime(y, m, d)\<close> raises \<open>ValueError\<close> on an invalid date, and
  adding a \<open>timedelta\<close> or converting to another zone raises \<open>OverflowError\<close> when the
  result leaves the years 1 to 9999.
\<close>

type_synonym datetime = int

definition datetime_new :: "int \<Rightarrow> int \<Rightarrow> int \<Rightarrow> py_error + datetime" where
  "datetime_new y m d = (if valid_ymd y m d then Inr (86400 * ymd2ord y m d) else Inl ValueError)"

definition datetime_in_range :: "int \<Rightarrow> bool" where
  "datetime_in_range t = (86400 * 1 \<le> t \<and> t < 86400 * (3652059 + 1))"

definition datetime_add_seconds :: "datetime \<Rightarrow> int \<Rightarrow> py_error + datetime" where
  "datetime_add_seconds t s = (if datetime_in_range (t + s) then Inr (t + s) else Inl OverflowError)"

text \<open>
  A time zone is its UTC offset in seconds as a function of the UTC instant;
  \<open>dt.astimezone(tz).replace(tzinfo=None)\<close> is the local wall-clock time.
\<close>

type_synonym tzinfo = "datetime \<Rightarrow> int"

definition astimezone_naive :: "tzinfo \<Rightarrow> datetime \<Rightarrow> py_error + datetime" where
  "astimezone_naive tz t = datetime_add_seconds t (tz t)"

section \<open>Solar utilities of \<open>src/core/Combined.py\<close>\<close>

definition deg2rad :: "real \<Rightarrow> real" where
  "deg2rad d = d * pi / 180.0"

definition rad2deg :: "real \<Rightarrow> real" where
  "rad2deg r = r * 180.0 / pi"

definition julian_day :: "date \<Rightarrow> real" where
  "julian_day d =
     (let (y, m) = (if month d \<le> 2 then (year d - 1, month d + 12) else (year d, month d));
          D = day d;
          A = \<lfloor>of_int y / (100::real)\<rfloor>;
          B = 2 - A + \<lfloor>of_int A / (4::real)\<rfloor>
      in of_int (\<lfloor>(365.25::real) * of_int (y + 4716)\<rfloor>
                 + \<lfloor>(30.6001::real) * of_int (m + 1)\<rfloor> + D + B) - 1524.5)"

definition jd_to_jcent :: "real \<Rightarrow> real" where
  "jd_to_jcent jd = (jd - 2451545.0) / 36525.0"

definition solar_coords :: "real \<Rightarrow> py_error + (real \<times> real \<times> real \<times> real \<times> real)" where
  "solar_coords jc =
     (let M = deg2rad (py_mod (357.52911 + jc * (35999.05029 - 0.0001537 * jc)) 360.0);
          L0 = py_mod (280.46646 + jc * (36000.76983 + jc * 0.0003032)) 360.0;
          C = deg2rad (1.914602 - jc * (0.004817 + 0.000014 * jc)) * sin M
              + deg2rad (0.019993 - 0.000101 * jc) * sin (2 * M)
              + deg2rad 0.000289 * sin (3 * M);
          lam = deg2rad (py_mod (L0 + rad2deg C) 360.0);
          eps = deg2rad (23.439291 - jc * (0.0130042 + jc * (0.000000164 - 0.000000504 * jc)))
      in case py_asin (sin eps * sin lam) of
           Inl e \<Rightarrow> Inl e
         | Inr delta \<Rightarrow>
             (let alpha = py_atan2 (cos eps * sin lam) (cos lam)
              in Inr (M, lam, delta, alpha, eps)))"

text \<open>
  The division in \<open>hour_angle\<close> raises \<open>ZeroDivisionError\<close> when the denominator is zero.
  Over the reals that is the case at latitude 90 degrees; in floating point
  \<open>cos(deg2rad(90.0))\<close> is about \<open>6.1e-17\<close>, not zero, and the quotient is clamped.
\<close>

definition hour_angle :: "real \<Rightarrow> real \<Rightarrow> real \<Rightarrow> py_error + real" where
  "hour_angle lat_rad dec altitude =
     (let alt = deg2rad altitude
      in if cos lat_rad * cos dec = 0 then Inl ZeroDivisionError
         else (let cosH = (sin alt - sin lat_rad * sin dec) / (cos lat_rad * cos dec);
                   cosH' = min 1.0 (max (-1.0) cosH)
               in py_acos cosH'))"

definition solar_transit_jd :: "real \<Rightarrow> real \<Rightarrow> real" where
  "solar_transit_jd jd lw =
     (let n = py_round (jd - 2451545.0009 - lw / (2 * pi));
          Japprox = 2451545.0009 + lw / (2 * pi) + of_int n;
          M' = deg2rad (py_mod (357.5291 + 0.98560028 * (Japprox - 2451545)) 360.0);
          lam' = deg2rad (py_mod (280.160 + 1.915 * sin M' + 0.020 * sin (2 * M')
                                   + 0.0003 * sin (3 * M')) 360.0)
      in 2451545.0009 + lw / (2 * pi) + of_int n + 0.0053 * sin M' - 0.0069 * sin (2 * lam'))"

text \<open>
  \<open>jd_to_utc_datetime\<close> in two steps: the arguments \<open>(year, month, day_int, seconds)\<close>
  it computes, and the \<open>datetime(year, month, day_int) + timedelta(seconds)\<close> it returns.
\<close>

definition jd_to_utc_fields :: "real \<Rightarrow> int \<times> int \<times> int \<times> int" where
  "jd_to_utc_fields jd =
     (let J = jd + 0.5;
          Z = py_int J;
          F = J - of_int Z;
          A = (if Z < 2299161 then Z
               else (let alpha = py_int ((of_int Z - 1867216.25) / 36524.25)
                     in Z + 1 + alpha - py_int (of_int alpha / 4)));
          B = A + 1524;
          C = py_int ((of_int B - 122.1) / 365.25);
          D = py_int (365.25 * of_int C);
          E = py_int (of_int (B - D) / 30.6001);
          day = of_int (B - D - py_int (30.6001 * of_int E)) + F;
          month = (if E < 14 then E - 1 else E - 13);
          year = (if 2 < month then C - 4716 else C - 4715);
          day_int = py_int day;
          frac = day - of_int day_int;
          seconds = py_round (frac * 86400)
      in (year, month, day_int, seconds))"

definition jd_to_utc_datetime :: "real \<Rightarrow> py_error + datetime" where
  "jd_to_utc_datetime jd =
     (case jd_to_utc_fields jd of
        (yr, mon, day_int, seconds) \<Rightarrow>
          (case datetime_new yr mon day_int of
             Inl e \<Rightarrow> Inl e
           | Inr t \<Rightarrow> datetime_add_seconds t seconds))"

definition sunrise_sunset_local ::
  "date \<Rightarrow> real \<Rightarrow> real \<Rightarrow> tzinfo \<Rightarrow> py_error + (datetime \<times> datetime)" where
  "sunrise_sunset_local d lat_deg lon_deg tz =
     (let jd = julian_day d;
          jc = jd_to_jcent jd
      in case solar_coords jc of
           Inl e \<Rightarrow> Inl e
         | Inr (M, lam, dec, alpha, eps) \<Rightarrow>
             (let lw = deg2rad (- lon_deg)
              in case hour_angle (deg2rad lat_deg) dec (-0.833) of
                   Inl e \<Rightarrow> Inl e
                 | Inr H \<Rightarrow>
                     (let Jtransit = solar_transit_jd jd lw;
                          Jrise = Jtransit - rad2deg H / 360.0;
                          Jset = Jtransit + rad2deg H / 360.0
                      in case jd_to_utc_datetime Jrise of
                           Inl e \<Rightarrow> Inl e
                         | Inr u1 \<Rightarrow>
                             (case astimezone_naive tz u1 of
                                Inl e \<Rightarrow> Inl e
                              | Inr sr \<Rightarrow>
                                  (case jd_to_utc_datetime Jset of
                                     Inl e \<Rightarrow> Inl e
                                   | Inr u2 \<Rightarrow>
                                       (case astimezone_naive tz u2 of
                                          Inl e \<Rightarrow> Inl e
                                        | Inr ss \<Rightarrow> Inr (sr, ss)))))))"

section \<open>Solar utilities of \<open>src/generators/fig10_5mhz_generator.py\<close>\<close>

text \<open>The second copy of the calculator, translated from its own file.\<close>

definition fig10_deg2rad :: "real \<Rightarrow> real" where
  "fig10_deg2rad d = d * pi / 180.0"

definition fig10_rad2deg :: "real \<Rightarrow> real" where
  "fig10_rad2deg r = r * 180.0 / pi"

definition fig10_julian_day :: "date \<Rightarrow> real" where
  "fig10_julian_day d =
     (let (y, m) = (if month d \<le> 2 then (year d - 1, month d + 12) else (year d, month d));
          D = day d;
          A = \<lfloor>of_int y / (100::real)\<rfloor>;
          B = 2 - A + \<lfloor>of_int A / (4::real)\<rfloor>
      in of_int (\<lfloor>(365.25::real) * of_int (y + 4716)\<rfloor>
                 + \<lfloor>(30.6001::real) * of_int (m + 1)\<rfloor> + D + B) - 1524.5)"

definition fig10_jd_to_jcent :: "real \<Rightarrow> real" where
  "fig10_jd_to_jcent jd = (jd - 2451545.0) / 36525.0"

definition fig10_solar_coords :: "real \<Rightarrow> py_error + (real \<times> real \<times> real \<times> real \<times> real)" where
  "fig10_solar_coords jc =
     (let M = fig10_deg2rad (py_mod (357.52911 + jc * (35999.05029 - 0.0001537 * jc)) 360.0);
          L0 = py_mod (280.46646 + jc * (36000.76983 + jc * 0.0003032)) 360.0;
          C = fig10_deg2rad (1.914602 - jc * (0.004817 + 0.000014 * jc)) * sin M
              + fig10_deg2rad (0.019993 - 0.000101 * jc) * sin (2 * M)
              + fig10_deg2rad 0.000289 * sin (3 * M);
          lam = fig10_deg2rad (py_mod (L0 + fig10_rad2deg C) 360.0);
          eps = fig10_deg2rad (23.439291 - jc * (0.0130042 + jc * (0.000000164 - 0.000000504 * jc)))
      in case py_asin (sin eps * sin lam) of
           Inl e \<Rightarrow> Inl e
         | Inr delta \<Rightarrow>
             (let alpha = py_atan2 (cos eps * sin lam) (cos lam)
              in Inr (M, lam, delta, alpha, eps)))"

definition fig10_hour_angle :: "real \<Rightarrow> real \<Rightarrow> real \<Rightarrow> py_error + real" where
  "fig10_hour_angle lat_rad dec altitude =
     (let alt = fig10_deg2rad altitude
      in if cos lat_rad * cos dec = 0 then Inl ZeroDivisionError
         else (let cosH = (sin alt - sin lat_rad * sin dec) / (cos lat_rad * cos dec);
                   cosH' = min 1.0 (max (-1.0) cosH)
               in py_acos cosH'))"

definition fig10_solar_transit_jd :: "real \<Rightarrow> real \<Rightarrow> real" where
  "fig10_solar_transit_jd jd lw =
     (let n = py_round (jd - 2451545.0009 - lw / (2 * pi));
          Japprox = 2451545.0009 + lw / (2 * pi) + of_int n;
          M' = fig10_deg2rad (py_mod (357.5291 + 0.98560028 * (Japprox - 2451545)) 360.0);
          lam' = fig10_deg2rad (py_mod (280.160 + 1.915 * sin M' + 0.020 * sin (2 * M')
                                   + 0.0003 * sin (3 * M')) 360.0)
      in 2451545.0009 + lw / (2 * pi) + of_int n + 0.0053 * sin M' - 0.0069 * sin (2 * lam'))"

text \<open>
  \<open>jd_to_utc_datetime\<close> in two steps: the arguments \<open>(year, month, day_int, seconds)\<close>
  it computes, and the \<open>datetime(year, month, day_int) + timedelta(seconds)\<close> it returns.
\<close>

definition fig10_jd_to_utc_fields :: "real \<Rightarrow> int \<times> int \<times> int \<times> int" where
  "fig10_jd_to_utc_fields jd =
     (let J = jd + 0.5;
          Z = py_int J;
          F = J - of_int Z;
          A = (if Z < 2299161 then Z
               else (let alpha = py_int ((of_int Z - 1867216.25) / 36524.25)
                     in Z + 1 + alpha - py_int (of_int alpha / 4)));
          B = A + 1524;
          C = py_int ((of_int B - 122.1) / 365.25);
          D = py_int (365.25 * of_int C);
          E = py_int (of_int (B - D) / 30.6001);
          day = of_int (B - D - py_int (30.6001 * of_int E)) + F;
          month = (if E < 14 then E - 1 else E - 13);
          year = (if 2 < month then C - 4716 else C - 4715);
          day_int = py_int day;
          frac = day - of_int day_int;
          seconds = py_round (frac * 86400)
      in (year, month, day_int, seconds))"

definition fig10_jd_to_utc_datetime :: "real \<Rightarrow> py_error + datetime" where
  "fig10_jd_to_utc_datetime jd =
     (case fig10_jd_to_utc_fields jd of
        (yr, mon, day_int, seconds) \<Rightarrow>
          (case datetime_new yr mon day_int of
             Inl e \<Rightarrow> Inl e
           | Inr t \<Rightarrow> datetime_add_seconds t seconds))"

definition fig10_sunrise_sunset_local ::
  "date \<Rightarrow> real \<Rightarrow> real \<Rightarrow> tzinfo \<Rightarrow> py_error + (datetime \<times> datetime)" where
  "fig10_sunrise_sunset_local d lat_deg lon_deg tz =
     (let jd = fig10_julian_day d;
          jc = fig10_jd_to_jcent jd
      in case fig10_solar_coords jc of
           Inl e \<Rightarrow> Inl e
         | Inr (M, lam, dec, alpha, eps) \<Rightarrow>
             (let lw = fig10_deg2rad (- lon_deg)
              in case fig10_hour_angle (fig10_deg2rad lat_deg) dec (-0.833) of
                   Inl e \<Rightarrow> Inl e
                 | Inr H \<Rightarrow>
                     (let Jtransit = fig10_solar_transit_jd jd lw;
                          Jrise = Jtransit - fig10_rad2deg H / 360.0;
                          Jset = Jtransit + fig10_rad2deg H / 360.0
                      in case fig10_jd_to_utc_datetime Jrise of
                           Inl e \<Rightarrow> Inl e
                         | Inr u1 \<Rightarrow>
                             (case astimezone_naive tz u1 of
                                Inl e \<Rightarrow> Inl e
                              | Inr sr \<Rightarrow>
                                  (case fig10_jd_to_utc_datetime Jset of
                                     Inl e \<Rightarrow> Inl e
                                   | Inr u2 \<Rightarrow>
                                       (case astimezone_naive tz u2 of
                                          Inl e \<Rightarrow> Inl e
                                        | Inr ss \<Rightarrow> Inr (sr, ss)))))))"

section \<open>The night shading of \<open>optional_plot\<close> (\<open>src/core/Combined.py\<close>)\<close>

text \<open>
  A pandas timestamp is a \<open>datetime\<close> or \<open>NaT\<close> (\<open>None\<close>); every comparison with
  \<open>NaT\<close> is false, and \<open>max(a, b)\<close> is \<open>b if b > a else a\<close>, \<open>min(a, b)\<close> is
  \<open>b if b < a else a\<close>.
\<close>

type_synonym timestamp = "datetime option"

definition ts_lt :: "timestamp \<Rightarrow> timestamp \<Rightarrow> bool" where
  "ts_lt a b = (case (a, b) of (Some x, Some y) \<Rightarrow> x < y | _ \<Rightarrow> False)"

definition py_max :: "timestamp \<Rightarrow> timestamp \<Rightarrow> timestamp" where
  "py_max a b = (if ts_lt a b then b else a)"

definition py_min :: "timestamp \<Rightarrow> timestamp \<Rightarrow> timestamp" where
  "py_min a b = (if ts_lt b a then b else a)"

text \<open>
  \<open>if pd.notna(left) and pd.notna(right) and left < right: ax.axvspan(left, right, ...)\<close>:
  the spans drawn, as a list.
\<close>

definition axvspan_if :: "timestamp \<Rightarrow> timestamp \<Rightarrow> (datetime \<times> datetime) list" where
  "axvspan_if left right =
     (case (left, right) of
        (Some l, Some r) \<Rightarrow> (if l < r then [(l, r)] else [])
      | _ \<Rightarrow> [])"

text \<open>\<open>pd.Timestamp(d)\<close> of a date is its midnight.\<close>

definition timestamp_of_date :: "date \<Rightarrow> timestamp" where
  "timestamp_of_date d = Some (86400 * toordinal d)"

definition timestamp_add_days :: "timestamp \<Rightarrow> int \<Rightarrow> timestamp" where
  "timestamp_add_days t n = (case t of Some x \<Rightarrow> Some (x + 86400 * n) | None \<Rightarrow> None)"

text \<open>
  \<open>sun_map\<close> is a dictionary from dates to \<open>(sunrise, sunset)\<close>, each a datetime or
  \<open>None\<close>; it is an association list in insertion order.
\<close>

type_synonym sun_map = "(date \<times> (datetime option \<times> datetime option)) list"

definition date_key :: "date \<Rightarrow> int \<times> int \<times> int" where
  "date_key d = (year d, month d, day d)"

text \<open>The body of the loop \<open>for i, d in enumerate(dates_sorted)\<close> of \<open>optional_plot\<close>.\<close>

definition night_spans_at ::
  "sun_map \<Rightarrow> date list \<Rightarrow> timestamp \<Rightarrow> timestamp \<Rightarrow> nat
     \<Rightarrow> py_error + (datetime \<times> datetime) list" where
  "night_spans_at sun_map dates_sorted start_dt end_dt i =
     (let d = dates_sorted ! i;
          sr = (case map_of sun_map d of Some v \<Rightarrow> fst v | None \<Rightarrow> None);
          ss = (case map_of sun_map d of Some v \<Rightarrow> snd v | None \<Rightarrow> None)
      in if i + 1 < length dates_sorted \<and> map_of sun_map (dates_sorted ! (i + 1)) = None
         then Inl KeyError
         else
          (let sr_next = (if i + 1 < length dates_sorted
                          then fst (the (map_of sun_map (dates_sorted ! (i + 1)))) else None);
               night =
                 (if ss \<noteq> None \<and> sr_next \<noteq> None then
                    (let current_date = d;
                         next_date = dates_sorted ! (i + 1);
                         day_gap = toordinal next_date - toordinal current_date
                     in if day_gap \<le> 1 then
                          (let left = py_max ss start_dt;
                               right = py_min sr_next end_dt
                           in axvspan_if left right)
                        else
                          (let left = py_max ss start_dt;
                               midnight = timestamp_add_days (timestamp_of_date current_date) 1;
                               right = py_min midnight end_dt;
                               evening = axvspan_if left right;
                               morning =
                                 (if next_date \<in> set dates_sorted then
                                    (let next_midnight = timestamp_of_date next_date;
                                         left = py_max next_midnight start_dt;
                                         right = py_min sr_next end_dt
                                     in axvspan_if left right)
                                  else [])
                           in evening @ morning))
                  else []);
               single =
                 (if length dates_sorted = 1 then
                    (if sr \<noteq> None then
                       (let left = start_dt; right = py_min sr end_dt in axvspan_if left right)
                     else [])
                    @ (if ss \<noteq> None then
                         (let left = py_max ss start_dt; right = end_dt in axvspan_if left right)
                       else [])
                  else [])
           in Inr (night @ single)))"

fun shade_days ::
  "sun_map \<Rightarrow> date list \<Rightarrow> timestamp \<Rightarrow> timestamp \<Rightarrow> nat list
     \<Rightarrow> py_error + (datetime \<times> datetime) list" where
  "shade_days sun_map dates_sorted start_dt end_dt [] = Inr []"
| "shade_days sun_map dates_sorted start_dt end_dt (i # rest) =
     (case night_spans_at sun_map dates_sorted start_dt end_dt i of
        Inl e \<Rightarrow> Inl e
      | Inr spans \<Rightarrow>
          (case shade_days sun_map dates_sorted start_dt end_dt rest of
             Inl e \<Rightarrow> Inl e
           | Inr others \<Rightarrow> Inr (spans @ others)))"

text \<open>
  The spans that \<open>optional_plot\<close> shades:
  \<open>dates_sorted = sorted(sun_map.keys())\<close>, then the loop over all indices.  Dates
  compare as the tuples \<open>(year, month, day)\<close>.
\<close>

definition night_intervals ::
  "sun_map \<Rightarrow> timestamp \<Rightarrow> timestamp \<Rightarrow> py_error + (datetime \<times> datetime) list" where
  "night_intervals sun_map start_dt end_dt =
     (let dates_sorted = sort_key date_key (map fst sun_map)
      in shade_days sun_map dates_sorted start_dt end_dt [0..<length dates_sorted])"

section \<open>Definitions used by the statements and proofs\<close>

text \<open>
  The Julian Day at 12:00 UTC of a proleptic Gregorian date, as the specification has
  it: Julian Days count days continuously, and noon of 2000-01-01 (ordinal 730120) is
  Julian Day 2451545, so noon of the date with ordinal \<open>n\<close> is Julian Day
  \<open>n + 1721425\<close>.
\<close>

definition spec_julian_day_noon :: "date \<Rightarrow> real" where
  "spec_julian_day_noon d = of_int (toordinal d + 1721425)"

text \<open>
  The arithmetic of \<open>julian_day\<close> on integers: leap days up to a year, the days before
  a month in the year that starts in March, and the day number at noon.
\<close>

definition leap_days :: "int \<Rightarrow> int" where
  "leap_days y = y div 4 - y div 100 + y div 400"

definition month_days :: "int \<Rightarrow> int" where
  "month_days m = (306001 * (m + 1)) div 10000"

definition jd_int :: "int \<Rightarrow> int \<Rightarrow> int \<Rightarrow> int" where
  "jd_int y m D = 365 * y + leap_days y + month_days m + D + 1720997"

definition year_days :: "int \<Rightarrow> int" where
  "year_days y = 365 * y + leap_days y"

text \<open>The calendar arithmetic of \<open>jd_to_utc_datetime\<close> on the integer day number.\<close>

definition jdn_A :: "int \<Rightarrow> int" where
  "jdn_A Z = (if Z < 2299161 then Z
              else (let alpha = (4 * Z - 7468865) div 146097 in Z + 1 + alpha - alpha div 4))"

definition civil_of_jdn :: "int \<Rightarrow> int \<times> int \<times> int" where
  "civil_of_jdn Z =
     (let B = jdn_A Z + 1524;
          C = (20 * B - 2442) div 7305;
          D = (1461 * C) div 4;
          E = (10000 * (B - D)) div 306001;
          dayi = B - D - (306001 * E) div 10000;
          mon = (if E < 14 then E - 1 else E - 13);
          yr = (if 2 < mon then C - 4716 else C - 4715)
      in (yr, mon, dayi))"

text \<open>What a valid date gives for the year that starts in March.\<close>

definition march_ok :: "int \<Rightarrow> int \<Rightarrow> int \<Rightarrow> bool" where
  "march_ok y m d =
     (3 \<le> m \<and> m \<le> 14 \<and> 123 \<le> month_days m + d
      \<and> month_days m + d \<le> 487 + (if is_leap (y + 1) then 1 else 0)
      \<and> 306001 * (m + 1) \<le> 10000 * (month_days m + d)
      \<and> 10000 * (month_days m + d) < 306001 * (m + 2))"

text \<open>The order of \<open>datetime.date\<close> values.\<close>

definition date_le :: "date \<Rightarrow> date \<Rightarrow> bool" where
  "date_le a b =
     (year a < year b
      \<or> (year a = year b \<and> (month a < month b \<or> (month a = month b \<and> day a \<le> day b))))"

text \<open>The obliquity of the ecliptic in degrees, the polynomial inside \<open>solar_coords\<close>.\<close>

definition obliquity_deg :: "real \<Rightarrow> real" where
  "obliquity_deg jc = 23.439291 - jc * (0.0130042 + jc * (0.000000164 - 0.000000504 * jc))"

text \<open>
  The mean anomaly, the equation of centre in degrees, the ecliptic longitude and the
  declination that \<open>solar_coords\<close> computes, as functions of the Julian century.
\<close>

definition mean_anomaly :: "real \<Rightarrow> real" where
  "mean_anomaly jc = deg2rad (py_mod (357.52911 + jc * (35999.05029 - 0.0001537 * jc)) 360.0)"

definition center_deg :: "real \<Rightarrow> real" where
  "center_deg jc =
     (1.914602 - jc * (0.004817 + 0.000014 * jc)) * sin (mean_anomaly jc)
     + (0.019993 - 0.000101 * jc) * sin (2 * mean_anomaly jc)
     + 0.000289 * sin (3 * mean_anomaly jc)"

definition ecliptic_longitude :: "real \<Rightarrow> real" where
  "ecliptic_longitude jc =
     deg2rad (py_mod (py_mod (280.46646 + jc * (36000.76983 + jc * 0.0003032)) 360.0
                      + center_deg jc) 360.0)"

definition solar_declination :: "real \<Rightarrow> real" where
  "solar_declination jc =
     arcsin (sin (deg2rad (obliquity_deg jc)) * sin (ecliptic_longitude jc))"

section \<open>Properties of the estimator\<close>

text \<open>
  C8.  For every signal value \<open>s\<close> the estimators return exactly
  \<open>clamp(baseline + s/scale, min, max)\<close>: the Darwin variant is
  \<open>clamp(9.0 + s/12.0, 3.0, 15.0)\<close> and so always lies in \<open>[3.0, 15.0]\<close>; the Guam
  variant is \<open>clamp(10.5 + s/10.0, 4.0, 18.0)\<close>.  The unused frequency argument has no
  influence.
\<close>

theorem calculate_fof2_from_signal_is_clamp:
  "darwin_calculate_fof2_from_signal s f = spec_estimate s 9.0 12.0 3.0 15.0
   \<and> 3.0 \<le> darwin_calculate_fof2_from_signal s f
   \<and> darwin_calculate_fof2_from_signal s f \<le> 15.0
   \<and> guam_calculate_fof2_from_signal s f = spec_estimate s 10.5 10.0 4.0 18.0"
  by (simp add: darwin_calculate_fof2_from_signal_def guam_calculate_fof2_from_signal_def
      spec_estimate_def spec_clamp_def np_clip_def Let_def min_def max_def)

section \<open>The Julian Day of a date\<close>

subsection \<open>Integer form of \<open>julian_day\<close>\<close>

lemma floor_365_25: "\<lfloor>(365.25::real) * of_int c\<rfloor> = (36525 * c) div 100"
proof -
  have "(365.25::real) * of_int c = of_int (36525 * c) / of_int 100" by simp
  then show ?thesis by (simp only: floor_divide_of_int_eq)
qed

lemma floor_30_6001: "\<lfloor>(30.6001::real) * of_int c\<rfloor> = (306001 * c) div 10000"
proof -
  have "(30.6001::real) * of_int c = of_int (306001 * c) / of_int 10000" by simp
  then show ?thesis by (simp only: floor_divide_of_int_eq)
qed

lemma floor_of_int_div_numeral: "\<lfloor>(of_int c :: real) / numeral b\<rfloor> = c div numeral b"
proof -
  have "(of_int c :: real) / numeral b = of_int c / of_int (numeral b)" by simp
  then show ?thesis by (simp only: floor_divide_of_int_eq)
qed

lemma div_36525: "(36525 * c) div 100 = 365 * c + c div (4::int)"
  by linarith

lemma div_100_4: "(y div 100) div 4 = y div (400::int)"
  by linarith

lemma div_4716: "(y + 4716) div 4 = y div 4 + (1179::int)"
  by linarith

lemma julian_day_int:
  "julian_day d =
     (if month d \<le> 2 then of_int (jd_int (year d - 1) (month d + 12) (day d))
      else of_int (jd_int (year d) (month d) (day d))) - 1/2"
  unfolding julian_day_def jd_int_def leap_days_def month_days_def Let_def
    floor_365_25 floor_30_6001 floor_of_int_div_numeral div_36525 div_100_4 div_4716
  by (simp split: if_splits)

lemma div_pred:
  fixes y k :: int
  assumes "0 < k"
  shows "(y - 1) div k = (if y mod k = 0 then y div k - 1 else y div k)"
proof (cases "y mod k = 0")
  case True
  have "y - 1 = k * (y div k - 1) + (k - 1)"
    using True by (simp add: algebra_simps) (metis mult_div_mod_eq add.right_neutral)
  then have "(y - 1) div k = y div k - 1"
    using assms by (intro int_div_pos_eq[where r = "k - 1"]) auto
  with True show ?thesis by simp
next
  case False
  have "0 \<le> y mod k" "y mod k < k" using assms by simp_all
  with False have r: "0 \<le> y mod k - 1" "y mod k - 1 < k" by linarith+
  have "y - 1 = k * (y div k) + (y mod k - 1)"
    by simp
  then have "(y - 1) div k = y div k"
    using r by (intro int_div_pos_eq[where r = "y mod k - 1"]) auto
  with False show ?thesis by simp
qed

lemma mod_400_100:
  assumes "(y::int) mod 400 = 0" shows "y mod 100 = 0"
proof -
  have "(100::int) dvd 400" by simp
  then have "y mod 400 mod 100 = y mod 100" by (rule mod_mod_cancel)
  with assms show ?thesis by simp
qed

lemma mod_100_4:
  assumes "(y::int) mod 100 = 0" shows "y mod 4 = 0"
proof -
  have "(4::int) dvd 100" by simp
  then have "y mod 100 mod 4 = y mod 4" by (rule mod_mod_cancel)
  with assms show ?thesis by simp
qed

lemma leap_arith:
  fixes q4 q100 q400 :: int
  assumes "b400 \<Longrightarrow> b100" "b100 \<Longrightarrow> b4"
  shows "q4 - q100 + q400
     = (if b4 then q4 - 1 else q4) - (if b100 then q100 - 1 else q100)
       + (if b400 then q400 - 1 else q400) + (if b4 \<and> (\<not> b100 \<or> b400) then 1 else 0)"
proof (cases b4)
  case True
  note b4 = this
  show ?thesis
  proof (cases b100)
    case True
    then show ?thesis using b4 by (cases b400) simp_all
  next
    case False
    with assms have "\<not> b400" by blast
    with False b4 show ?thesis by simp
  qed
next
  case False
  with assms have "\<not> b100" "\<not> b400" by blast+
  with False show ?thesis by simp
qed

lemma leap_step: "leap_days y = leap_days (y - 1) + (if is_leap y then 1 else 0)"
proof -
  have p4: "(y - 1) div 4 = (if y mod 4 = 0 then y div 4 - 1 else y div 4)"
    by (rule div_pred) simp
  have p100: "(y - 1) div 100 = (if y mod 100 = 0 then y div 100 - 1 else y div 100)"
    by (rule div_pred) simp
  have p400: "(y - 1) div 400 = (if y mod 400 = 0 then y div 400 - 1 else y div 400)"
    by (rule div_pred) simp
  show ?thesis
    unfolding leap_days_def p4 p100 p400 is_leap_def
    by (rule leap_arith) (erule mod_400_100, erule mod_100_4)
qed

lemma days_before_year_leap_days: "days_before_year y = 365 * (y - 1) + leap_days (y - 1)"
  unfolding days_before_year_def Let_def leap_days_def
  by (simp only: mult.commute)

lemma month_cases:
  "1 \<le> m \<Longrightarrow> m \<le> 12 \<Longrightarrow>
   m = 1 \<or> m = 2 \<or> m = 3 \<or> m = 4 \<or> m = 5 \<or> m = 6 \<or> m = 7 \<or> m = 8 \<or> m = 9
   \<or> m = 10 \<or> m = 11 \<or> m = (12::int)"
  by arith

lemma jd_int_early:
  assumes "m = 1 \<or> m = 2"
  shows "jd_int (y - 1) (m + 12) D = ymd2ord y m D + 1721425"
  using assms
  by (auto simp: jd_int_def month_days_def ymd2ord_def days_before_year_leap_days
      days_before_month_def)

lemma jd_int_late:
  assumes "3 \<le> m" "m \<le> 12"
  shows "jd_int y m D = ymd2ord y m D + 1721425"
proof -
  from assms month_cases[of m]
  have "m = 3 \<or> m = 4 \<or> m = 5 \<or> m = 6 \<or> m = 7 \<or> m = 8 \<or> m = 9 \<or> m = 10 \<or> m = 11 \<or> m = 12"
    by linarith
  then have "month_days m
      = 63 + [0, 0, 31, 59, 90, 120, 151, 181, 212, 243, 273, 304, 334] ! nat m \<and> 2 < m"
    unfolding month_days_def by (elim disjE) simp_all
  then show ?thesis
    using leap_step[of y]
    by (simp add: jd_int_def ymd2ord_def days_before_year_leap_days days_before_month_def)
qed

lemma julian_day_toordinal:
  assumes "1 \<le> month d" "month d \<le> 12"
  shows "julian_day d = of_int (toordinal d + 1721425) - 1/2"
proof (cases "month d \<le> 2")
  case True
  with assms have "month d = 1 \<or> month d = 2" by linarith
  then have "jd_int (year d - 1) (month d + 12) (day d) = toordinal d + 1721425"
    unfolding toordinal_def by (rule jd_int_early)
  with True show ?thesis by (simp only: julian_day_int if_True)
next
  case False
  with assms have "jd_int (year d) (month d) (day d) = toordinal d + 1721425"
    unfolding toordinal_def by (intro jd_int_late) linarith+
  with False show ?thesis by (simp only: julian_day_int if_False)
qed

text \<open>
  For every calendar date \<open>d\<close>, \<open>julian_day d\<close> is the Julian Day at 00:00 UTC of \<open>d\<close>:
  one half less than the Julian Day at 12:00 UTC of that date.
\<close>

lemma julian_day_is_midnight:
  "valid_date d \<Longrightarrow> julian_day d = spec_julian_day_noon d - 1/2"
  unfolding spec_julian_day_noon_def
  by (rule julian_day_toordinal) (simp_all add: valid_date_def valid_ymd_def)

lemma year_days_step:
  "year_days (y + 1) = year_days y + 365 + (if is_leap (y + 1) then 1 else 0)"
  using leap_step[of "y + 1"] by (simp add: year_days_def)

lemma year_days_mono:
  assumes "a \<le> b" shows "year_days a \<le> year_days b"
  using assms
proof (induction b rule: int_ge_induct)
  case base
  show ?case by simp
next
  case (step i)
  have "year_days i \<le> year_days (i + 1)"
    unfolding year_days_step by simp
  with step show ?case by linarith
qed

lemma year_days_century: "year_days (100 * a) = 36524 * a + a div 4"
proof -
  have 1: "(100 * a) div 4 = 25 * a" by simp
  have 2: "(100 * a) div 100 = a" by simp
  have 3: "(100 * a) div 400 = a div 4" by simp
  show ?thesis unfolding year_days_def leap_days_def 1 2 3 by simp
qed

lemma div_bounds:
  fixes a b :: int
  assumes "0 < b"
  shows "b * (a div b) \<le> a" "a < b * (a div b) + b"
proof -
  have "a = b * (a div b) + a mod b" by simp
  moreover have "0 \<le> a mod b" "a mod b < b" using assms by simp_all
  ultimately show "b * (a div b) \<le> a" "a < b * (a div b) + b" by linarith+
qed

lemma div_eqI:
  fixes a b q :: int
  assumes "b * q \<le> a" "a < b * q + b"
  shows "a div b = q"
proof -
  have "a = b * q + (a - b * q)" by simp
  moreover have "0 \<le> a - b * q" "a - b * q < b" using assms by linarith+
  ultimately show ?thesis by (rule int_div_pos_eq)
qed

lemma march_ok_early:
  assumes "valid_ymd y m d" "m \<le> 2"
  shows "march_ok (y - 1) (m + 12) d"
proof -
  from assms have "m = 1 \<or> m = 2" by (auto simp: valid_ymd_def)
  then show ?thesis
  proof
    assume "m = 1"
    with assms show ?thesis
      by (simp add: valid_ymd_def days_in_month_def march_ok_def month_days_def)
  next
    assume "m = 2"
    with assms show ?thesis
      by (simp add: valid_ymd_def days_in_month_def march_ok_def month_days_def split: if_splits)
  qed
qed

lemma march_ok_late:
  assumes "valid_ymd y m d" "2 < m"
  shows "march_ok y m d"
proof -
  from assms month_cases[of m]
  have "m = 3 \<or> m = 4 \<or> m = 5 \<or> m = 6 \<or> m = 7 \<or> m = 8 \<or> m = 9 \<or> m = 10 \<or> m = 11 \<or> m = 12"
    by (auto simp: valid_ymd_def)
  then show ?thesis
    using assms(1)
    by (elim disjE) (simp_all add: valid_ymd_def days_in_month_def march_ok_def month_days_def)
qed

lemma div_1461: "(1461 * c) div 4 = 365 * c + c div (4::int)"
  by linarith

lemma div_minus_4: "(a - 4) div 4 = a div 4 - (1::int)"
  by linarith

lemma leap_year_mod_4: "is_leap y \<Longrightarrow> y mod 4 = 0"
  by (simp add: is_leap_def)

lemma mod_4_shift: "(y + 1) mod 4 = 0 \<Longrightarrow> 4 * ((y + 4716) div 4) = y + (4713::int)"
  by presburger

lemma civil_of_jdn_jd_int:
  assumes ok: "march_ok y m d" and gr: "2299161 \<le> jd_int y m d"
  shows "civil_of_jdn (jd_int y m d) = (if m \<le> 12 then (y, m, d) else (y + 1, m - 12, d))"
proof -
  define A' where "A' = y div 100"
  define q where "q = A' div 4"
  define q' where "q' = (A' + 1) div 4"
  define S where "S = month_days m + d"
  define N where "N = jd_int y m d"
  define L where "L = (if is_leap (y + 1) then 1 else (0::int))"
  define C' where "C' = y + 4716"
  define c4 where "c4 = C' div 4"
  have N: "N = year_days y + S + 1720997"
    by (simp add: N_def jd_int_def year_days_def S_def)
  have S: "123 \<le> S" "S \<le> 487 + L" "306001 * (m + 1) \<le> 10000 * S"
    "10000 * S < 306001 * (m + 2)" "3 \<le> m" "m \<le> 14"
    using ok by (simp_all add: march_ok_def S_def L_def)
  have A': "100 * A' \<le> y" "y < 100 * A' + 100"
    unfolding A'_def by (rule div_bounds, simp)+
  have q: "4 * q \<le> A'" "A' < 4 * q + 4"
    unfolding q_def by (rule div_bounds, simp)+
  have q': "4 * q' \<le> A' + 1"
    unfolding q'_def by (rule div_bounds, simp)
  have c4: "4 * c4 \<le> C'" "C' < 4 * c4 + 4"
    unfolding c4_def by (rule div_bounds, simp)+
  have lo: "36524 * A' + q \<le> year_days y"
    using year_days_mono[OF A'(1)] unfolding year_days_century q_def .
  have "y + 1 \<le> 100 * (A' + 1)" using A'(2) by simp
  from year_days_mono[OF this]
  have "year_days (y + 1) \<le> 36524 * (A' + 1) + q'"
    unfolding year_days_century q'_def .
  then have hi: "year_days (y + 1) \<le> 36524 * A' + 36524 + q'" by simp
  have st: "year_days (y + 1) = year_days y + 365 + L"
    by (simp add: year_days_step L_def)
  have alpha: "(4 * N - 7468865) div 146097 = A' - 4"
  proof (rule div_eqI)
    have "146097 * A' - 584388 \<le> 4 * N - 7468865"
      using N S(1) lo q(2) by linarith
    then show "146097 * (A' - 4) \<le> 4 * N - 7468865" by simp
    have "L \<le> 1" by (simp add: L_def)
    then have "4 * N - 7468865 < 146097 * A' - 438291"
      using N S(2) hi st q' by linarith
    then show "4 * N - 7468865 < 146097 * (A' - 4) + 146097" by simp
  qed
  have "jdn_A N = N + 1 + (A' - 4) - (A' - 4) div 4"
    using gr by (simp add: jdn_A_def alpha Let_def N_def[symmetric])
  then have A: "jdn_A N = N + A' - q - 2"
    by (simp add: div_minus_4 q_def)
  have "leap_days y = y div 4 - A' + q"
    by (simp add: leap_days_def A'_def q_def div_100_4)
  moreover have "c4 = y div 4 + 1179"
    by (simp add: c4_def C'_def div_4716)
  ultimately have B: "jdn_A N + 1524 = 365 * C' + c4 + S"
    using A N by (simp add: year_days_def C'_def)
  have leapC: "L = 1 \<Longrightarrow> 4 * c4 = C' - 3"
  proof -
    assume "L = 1"
    then have "is_leap (y + 1)" by (simp add: L_def split: if_splits)
    then have "(y + 1) mod 4 = 0" by (rule leap_year_mod_4)
    then show ?thesis unfolding c4_def C'_def by (simp add: mod_4_shift)
  qed
  have L01: "L = 0 \<or> L = 1" by (simp add: L_def)
  have C: "(20 * (365 * C' + c4 + S) - 2442) div 7305 = C'"
  proof (rule div_eqI)
    have e: "20 * (365 * C' + c4 + S) - 2442 = 7300 * C' + 20 * c4 + 20 * S - 2442"
      by simp
    show "7305 * C' \<le> 20 * (365 * C' + c4 + S) - 2442"
      unfolding e using S(1) c4(2) by linarith
    show "20 * (365 * C' + c4 + S) - 2442 < 7305 * C' + 7305"
      unfolding e using L01
    proof
      assume "L = 0" then show "7300 * C' + 20 * c4 + 20 * S - 2442 < 7305 * C' + 7305"
        using S(2) c4(1) by linarith
    next
      assume "L = 1" then show "7300 * C' + 20 * c4 + 20 * S - 2442 < 7305 * C' + 7305"
        using S(2) leapC by linarith
    qed
  qed
  have D: "(1461 * C') div 4 = 365 * C' + c4"
    by (simp add: div_1461 c4_def)
  have E: "(10000 * S) div 306001 = m + 1"
  proof (rule div_eqI)
    show "306001 * (m + 1) \<le> 10000 * S" by (rule S(3))
    have "10000 * S < 306001 * m + 612002" using S(4) by simp
    then show "10000 * S < 306001 * (m + 1) + 306001" by simp
  qed
  have BD: "365 * C' + c4 + S - (365 * C' + c4) = S"
    by simp
  have md: "(306001 * (m + 1)) div 10000 = month_days m"
    unfolding month_days_def by (rule refl)
  have dayi: "S - month_days m = d"
    by (simp add: S_def)
  have "civil_of_jdn N =
      (if 2 < (if m + 1 < 14 then m + 1 - 1 else m + 1 - 13) then C' - 4716 else C' - 4715,
       if m + 1 < 14 then m + 1 - 1 else m + 1 - 13, d)"
    unfolding civil_of_jdn_def Let_def B C D BD E md dayi
    by (rule refl)
  then show ?thesis
    using S(5,6) unfolding N_def C'_def by (simp split: if_splits)
qed

subsection \<open>Integer form of \<open>jd_to_utc_datetime\<close>\<close>

lemma py_int_nonneg: "0 \<le> x \<Longrightarrow> py_int x = \<lfloor>x\<rfloor>"
  by (simp add: py_int_def)

lemma floor_alpha:
  "\<lfloor>(of_int Z - 1867216.25) / (36524.25::real)\<rfloor> = (4 * Z - 7468865) div 146097"
proof -
  have "(of_int Z - 1867216.25) / (36524.25::real) = of_int (4 * Z - 7468865) / of_int 146097"
    by (simp add: field_simps)
  then show ?thesis by (simp only: floor_divide_of_int_eq)
qed

lemma floor_C:
  "\<lfloor>(of_int B - 122.1) / (365.25::real)\<rfloor> = (20 * B - 2442) div 7305"
proof -
  have "(of_int B - 122.1) / (365.25::real) = of_int (20 * B - 2442) / of_int 7305"
    by (simp add: field_simps)
  then show ?thesis by (simp only: floor_divide_of_int_eq)
qed

lemma floor_E:
  "\<lfloor>of_int n / (30.6001::real)\<rfloor> = (10000 * n) div 306001"
proof -
  have "of_int n / (30.6001::real) = of_int (10000 * n) / of_int 306001"
    by (simp add: field_simps)
  then show ?thesis by (simp only: floor_divide_of_int_eq)
qed

lemma floor_quarter: "\<lfloor>of_int a / (4::real)\<rfloor> = a div 4"
  by (rule floor_of_int_div_numeral)

lemma floor_D: "\<lfloor>(365.25::real) * of_int c\<rfloor> = (1461 * c) div 4"
  by (simp only: floor_365_25 div_36525 div_1461)

lemma jd_to_utc_fields_floor:
  assumes "0 \<le> jd + 0.5"
  shows "jd_to_utc_fields jd =
     (case civil_of_jdn \<lfloor>jd + 0.5\<rfloor> of
        (y, m, d) \<Rightarrow> (y, m, d, py_round ((jd + 0.5 - of_int \<lfloor>jd + 0.5\<rfloor>) * 86400)))"
proof -
  define J where "J = jd + 0.5"
  define Z where "Z = \<lfloor>J\<rfloor>"
  define F where "F = J - of_int Z"
  have J0: "0 \<le> J" using assms by (simp add: J_def)
  have Z0: "0 \<le> Z" using J0 by (simp add: Z_def)
  have pZ: "py_int J = Z" using J0 by (simp add: py_int_nonneg Z_def)
  have F: "0 \<le> F" "F < 1" by (simp_all add: F_def Z_def) linarith
  define al where "al = (4 * Z - 7468865) div 146097"
  define A where "A = jdn_A Z"
  have al0: "2299161 \<le> Z \<Longrightarrow> 0 \<le> al"
    unfolding al_def by (rule pos_imp_zdiv_nonneg_iff[THEN iffD2]) simp_all
  have pal: "2299161 \<le> Z \<Longrightarrow> py_int ((of_int Z - 1867216.25) / 36524.25) = al"
  proof -
    assume "2299161 \<le> Z"
    then have "0 \<le> (of_int Z - 1867216.25) / (36524.25::real)" by simp
    then show ?thesis by (simp only: py_int_nonneg floor_alpha al_def)
  qed
  have pal4: "2299161 \<le> Z \<Longrightarrow> py_int (of_int al / 4) = al div 4"
  proof -
    assume "2299161 \<le> Z"
    then have "0 \<le> of_int al / (4::real)" using al0 by simp
    then show ?thesis by (simp only: py_int_nonneg floor_quarter)
  qed
  have pA: "(if Z < 2299161 then Z
             else Z + 1 + py_int ((of_int Z - 1867216.25) / 36524.25)
                  - py_int (of_int (py_int ((of_int Z - 1867216.25) / 36524.25)) / 4)) = A"
  proof (cases "Z < 2299161")
    case True
    then show ?thesis by (simp add: A_def jdn_A_def)
  next
    case False
    then have z: "2299161 \<le> Z" by simp
    show ?thesis
      by (simp only: False if_False Let_def pal[OF z] pal4[OF z] A_def jdn_A_def
          al_def[symmetric])
  qed
  have A0: "0 \<le> A"
  proof (cases "Z < 2299161")
    case True
    then show ?thesis using Z0 by (simp add: A_def jdn_A_def)
  next
    case False
    then have z: "2299161 \<le> Z" by simp
    have "4 * (al div 4) \<le> al" by (rule div_bounds) simp
    then have "al div 4 \<le> al" using al0[OF z] by linarith
    then show ?thesis using False Z0 by (simp add: A_def jdn_A_def Let_def al_def[symmetric])
  qed
  define B where "B = A + 1524"
  define C where "C = (20 * B - 2442) div 7305"
  have C0: "0 \<le> C"
    unfolding C_def by (rule pos_imp_zdiv_nonneg_iff[THEN iffD2]) (use A0 in \<open>simp_all add: B_def\<close>)
  have pC: "py_int ((of_int B - 122.1) / 365.25) = C"
  proof -
    have "0 \<le> (of_int B - 122.1) / (365.25::real)" using A0 by (simp add: B_def)
    then show ?thesis by (simp only: py_int_nonneg floor_C C_def)
  qed
  define D where "D = (1461 * C) div 4"
  have pD: "py_int (365.25 * of_int C) = D"
  proof -
    have "0 \<le> (365.25::real) * of_int C" using C0 by simp
    then show ?thesis by (simp only: py_int_nonneg floor_D D_def)
  qed
  have D4: "4 * D \<le> 1461 * C" unfolding D_def by (rule div_bounds) simp
  have C7: "7305 * C \<le> 20 * B - 2442" unfolding C_def by (rule div_bounds) simp
  have BD: "0 \<le> B - D" using D4 C7 by linarith
  define E where "E = (10000 * (B - D)) div 306001"
  have E0: "0 \<le> E"
    unfolding E_def by (rule pos_imp_zdiv_nonneg_iff[THEN iffD2]) (use BD in simp_all)
  have pE: "py_int (of_int (B - D) / 30.6001) = E"
  proof -
    have "0 \<le> of_int (B - D) / (30.6001::real)" using BD by simp
    then show ?thesis by (simp only: py_int_nonneg floor_E E_def)
  qed
  define g where "g = (306001 * E) div 10000"
  have pg: "py_int (30.6001 * of_int E) = g"
  proof -
    have "0 \<le> (30.6001::real) * of_int E" using E0 by simp
    then show ?thesis by (simp only: py_int_nonneg floor_30_6001 g_def)
  qed
  have "10000 * g \<le> 306001 * E" unfolding g_def by (rule div_bounds) simp
  moreover have "306001 * E \<le> 10000 * (B - D)" unfolding E_def by (rule div_bounds) simp
  ultimately have "10000 * g \<le> 10000 * (B - D)" by (rule order_trans)
  then have dayi0: "0 \<le> B - D - g" by simp
  have pday: "py_int (of_int (B - D - g) + F) = B - D - g"
  proof -
    have "0 \<le> of_int (B - D - g) + F" using dayi0 F(1) by simp
    moreover have "\<lfloor>of_int (B - D - g) + F\<rfloor> = B - D - g"
      using F by linarith
    ultimately show ?thesis by (simp only: py_int_nonneg)
  qed
  have frac: "of_int (B - D - g) + F - of_int (B - D - g) = F" by simp
  have "jd_to_utc_fields jd =
      (if 2 < (if E < 14 then E - 1 else E - 13) then C - 4716 else C - 4715,
       if E < 14 then E - 1 else E - 13, B - D - g, py_round (F * 86400))"
    unfolding jd_to_utc_fields_def Let_def J_def[symmetric] pZ F_def[symmetric] pA
      B_def[symmetric] pC pD pE pg pday frac
    by (rule refl)
  moreover have "civil_of_jdn Z =
      (if 2 < (if E < 14 then E - 1 else E - 13) then C - 4716 else C - 4715,
       if E < 14 then E - 1 else E - 13, B - D - g)"
    unfolding civil_of_jdn_def Let_def A_def[symmetric] B_def[symmetric] C_def[symmetric]
      D_def[symmetric] E_def[symmetric] g_def[symmetric]
    by (rule refl)
  ultimately show ?thesis
    unfolding J_def[symmetric] Z_def[symmetric] F_def[symmetric] by simp
qed

lemma year_day_bound:
  assumes "valid_ymd y m d"
  shows "days_before_month y m + d \<le> 365 + (if is_leap y then 1 else 0)"
proof -
  from assms month_cases[of m]
  have "m = 1 \<or> m = 2 \<or> m = 3 \<or> m = 4 \<or> m = 5 \<or> m = 6 \<or> m = 7 \<or> m = 8 \<or> m = 9
        \<or> m = 10 \<or> m = 11 \<or> m = 12"
    by (simp add: valid_ymd_def)
  then show ?thesis
    using assms
    by (elim disjE)
      (simp_all add: valid_ymd_def days_in_month_def days_before_month_def split: if_splits)
qed

lemma ymd2ord_upper:
  assumes "valid_ymd y m d"
  shows "ymd2ord y m d \<le> 3652059"
proof -
  have "ymd2ord y m d = year_days (y - 1) + (days_before_month y m + d)"
    by (simp add: ymd2ord_def days_before_year_leap_days year_days_def)
  also have "\<dots> \<le> year_days (y - 1) + 365 + (if is_leap y then 1 else 0)"
    using year_day_bound[OF assms] by simp
  also have "\<dots> = year_days y"
    using year_days_step[of "y - 1"] by simp
  also have "\<dots> \<le> year_days 9999"
    by (rule year_days_mono) (use assms in \<open>simp add: valid_ymd_def\<close>)
  also have "\<dots> = 3652059"
    by (simp add: year_days_def leap_days_def)
  finally show ?thesis .
qed

lemma jd_int_gregorian:
  assumes v: "valid_ymd y m d"
    and ge: "1582 < y \<or> (y = 1582 \<and> (10 < m \<or> (m = 10 \<and> 15 \<le> d)))"
  shows "2299161 \<le> ymd2ord y m d + 1721425"
proof -
  have m: "1 \<le> m" "m \<le> 12" and d: "1 \<le> d" using v by (simp_all add: valid_ymd_def)
  have y82: "year_days 1582 = 577813" by (simp add: year_days_def leap_days_def)
  show ?thesis
  proof (cases "m \<le> 2")
    case True
    then have m12: "m = 1 \<or> m = 2" using m by linarith
    have eq: "ymd2ord y m d + 1721425 = year_days (y - 1) + month_days (m + 12) + d + 1720997"
      using jd_int_early[OF m12, of y d] by (simp add: jd_int_def year_days_def)
    from ge True have "1582 \<le> y - 1" by linarith
    then have "year_days 1582 \<le> year_days (y - 1)" by (rule year_days_mono)
    moreover have "428 \<le> month_days (m + 12)"
      using m12 by (auto simp: month_days_def)
    ultimately show ?thesis using d unfolding eq y82 by linarith
  next
    case False
    then have m3: "3 \<le> m" by simp
    have eq: "ymd2ord y m d + 1721425 = year_days y + month_days m + d + 1720997"
      using jd_int_late[OF m3 m(2), of y d] by (simp add: jd_int_def year_days_def)
    from m3 m(2) month_cases[of m]
    have mc: "m = 3 \<or> m = 4 \<or> m = 5 \<or> m = 6 \<or> m = 7 \<or> m = 8 \<or> m = 9 \<or> m = 10 \<or> m = 11 \<or> m = 12"
      by linarith
    then have md: "122 \<le> month_days m"
      by (elim disjE) (simp_all add: month_days_def)
    show ?thesis
    proof (cases "1582 < y")
      case True
      then have "1583 \<le> y" by simp
      then have "year_days 1583 \<le> year_days y" by (rule year_days_mono)
      moreover have "year_days 1583 = 578178" by (simp add: year_days_def leap_days_def)
      ultimately show ?thesis using d md unfolding eq by linarith
    next
      case False
      with ge have y: "y = 1582" and md': "10 < m \<or> (m = 10 \<and> 15 \<le> d)" by auto
      from md' mc have "351 \<le> month_days m + d"
        using d by (elim disjE) (simp_all add: month_days_def)
      then show ?thesis using eq y82 y by simp
    qed
  qed
qed

lemma py_round_0: "py_round 0 = 0"
  by (simp add: py_round_def)

lemma civil_of_jdn_ymd2ord:
  assumes v: "valid_ymd y m d"
    and ge: "2299161 \<le> ymd2ord y m d + 1721425"
  shows "civil_of_jdn (ymd2ord y m d + 1721425) = (y, m, d)"
proof (cases "m \<le> 2")
  case True
  with v have m12: "m = 1 \<or> m = 2" by (auto simp: valid_ymd_def)
  have eq: "jd_int (y - 1) (m + 12) d = ymd2ord y m d + 1721425"
    by (rule jd_int_early[OF m12])
  have "civil_of_jdn (jd_int (y - 1) (m + 12) d)
      = (if m + 12 \<le> 12 then (y - 1, m + 12, d) else (y - 1 + 1, m + 12 - 12, d))"
    by (rule civil_of_jdn_jd_int) (use march_ok_early[OF v True] ge eq in simp_all)
  then show ?thesis using m12 unfolding eq by auto
next
  case False
  with v have m3: "3 \<le> m" "m \<le> 12" by (auto simp: valid_ymd_def)
  have eq: "jd_int y m d = ymd2ord y m d + 1721425"
    by (rule jd_int_late[OF m3])
  have "civil_of_jdn (jd_int y m d) = (if m \<le> 12 then (y, m, d) else (y + 1, m - 12, d))"
    by (rule civil_of_jdn_jd_int) (use march_ok_late[OF v] False ge eq in simp_all)
  then show ?thesis using m3 unfolding eq by simp
qed

text \<open>
  C9.  For every calendar date \<open>d\<close> on or after 1582-10-15, \<open>jd_to_utc_datetime\<close>
  applied to \<open>julian_day d\<close> computes the year, month and day of \<open>d\<close> with zero
  seconds, and returns 00:00:00 UTC of \<open>d\<close>.
\<close>

theorem jd_roundtrip:
  assumes "valid_date d" "date_le \<lparr>year = 1582, month = 10, day = 15\<rparr> d"
  shows "jd_to_utc_fields (julian_day d) = (year d, month d, day d, 0)
         \<and> jd_to_utc_datetime (julian_day d) = Inr (86400 * toordinal d)"
proof -
  define N where "N = toordinal d + 1721425"
  have v: "valid_ymd (year d) (month d) (day d)" using assms(1) by (simp add: valid_date_def)
  have jd: "julian_day d = of_int N - 1/2"
    unfolding N_def by (rule julian_day_toordinal) (use v in \<open>simp_all add: valid_ymd_def\<close>)
  have J: "julian_day d + 0.5 = of_int N" by (simp add: jd)
  have ge: "2299161 \<le> N"
    unfolding N_def toordinal_def
    by (rule jd_int_gregorian[OF v]) (use assms(2) in \<open>auto simp: date_le_def\<close>)
  have civ: "civil_of_jdn N = (year d, month d, day d)"
    unfolding N_def toordinal_def
    by (rule civil_of_jdn_ymd2ord[OF v]) (use ge in \<open>simp add: N_def toordinal_def\<close>)
  have "0 \<le> julian_day d + 0.5" unfolding J using ge by simp
  from jd_to_utc_fields_floor[OF this]
  have fields: "jd_to_utc_fields (julian_day d) = (year d, month d, day d, 0)"
    unfolding J by (simp add: civ py_round_0)
  have up: "toordinal d \<le> 3652059"
    unfolding toordinal_def by (rule ymd2ord_upper[OF v])
  have "1 \<le> toordinal d" using ge by (simp add: N_def)
  with up have "datetime_in_range (86400 * toordinal d + 0)"
    by (simp add: datetime_in_range_def)
  then have "jd_to_utc_datetime (julian_day d) = Inr (86400 * toordinal d)"
    unfolding jd_to_utc_datetime_def fields
    by (simp add: datetime_new_def v datetime_add_seconds_def toordinal_def)
  with fields show ?thesis by simp
qed

theorem jd_roundtrip_witness:
  "valid_date \<lparr>year = 1582, month = 10, day = 15\<rparr>
   \<and> date_le \<lparr>year = 1582, month = 10, day = 15\<rparr> \<lparr>year = 1582, month = 10, day = 15\<rparr>
   \<and> julian_day \<lparr>year = 1582, month = 10, day = 15\<rparr> = 2299160.5
   \<and> jd_to_utc_fields (julian_day \<lparr>year = 1582, month = 10, day = 15\<rparr>) = (1582, 10, 15, 0)
   \<and> jd_to_utc_datetime (julian_day \<lparr>year = 1582, month = 10, day = 15\<rparr>)
       = Inr (86400 * 577736)"
proof -
  have v: "valid_date \<lparr>year = 1582, month = 10, day = 15\<rparr>"
    by (simp add: valid_date_def valid_ymd_def days_in_month_def)
  have l: "date_le \<lparr>year = 1582, month = 10, day = 15\<rparr> \<lparr>year = 1582, month = 10, day = 15\<rparr>"
    by (simp add: date_le_def)
  have o: "toordinal \<lparr>year = 1582, month = 10, day = 15\<rparr> = 577736"
    by (simp add: toordinal_def ymd2ord_def days_before_year_def days_before_month_def is_leap_def)
  have j: "julian_day \<lparr>year = 1582, month = 10, day = 15\<rparr> = 2299160.5"
    by (simp add: julian_day_def)
  have r: "jd_to_utc_fields (julian_day \<lparr>year = 1582, month = 10, day = 15\<rparr>) = (1582, 10, 15, 0)
      \<and> jd_to_utc_datetime (julian_day \<lparr>year = 1582, month = 10, day = 15\<rparr>)
          = Inr (86400 * 577736)"
    using jd_roundtrip[OF v l] unfolding o by simp
  show ?thesis
    using r v l j by blast
qed

section \<open>Night shading\<close>

lemma py_max_Some: "py_max (Some x) (Some y) = Some (max x y)"
  by (simp add: py_max_def ts_lt_def max_def)

lemma py_min_Some: "py_min (Some x) (Some y) = Some (min x y)"
  by (simp add: py_min_def ts_lt_def min_def)

lemma axvspan_if_Some: "axvspan_if (Some l) (Some r) = (if l < r then [(l, r)] else [])"
  by (simp add: axvspan_if_def)

text \<open>
  The lookup \<open>sun_map[dates_sorted[i+1]]\<close> never fails when the dates are keys of the
  dictionary, as they are in \<open>night_intervals\<close>.
\<close>

lemma night_spans_at_returns:
  assumes "set ds \<subseteq> fst ` set sm"
  shows "\<exists>spans. night_spans_at sm ds start_dt end_dt i = Inr spans"
proof (cases "i + 1 < length ds")
  case True
  then have "ds ! (i + 1) \<in> fst ` set sm" using assms by (meson nth_mem subsetD)
  then have "map_of sm (ds ! (i + 1)) \<noteq> None" by (simp add: map_of_eq_None_iff)
  then show ?thesis by (simp add: night_spans_at_def Let_def)
next
  case False
  then show ?thesis by (simp add: night_spans_at_def Let_def)
qed

lemma shade_days_returns:
  assumes "set ds \<subseteq> fst ` set sm"
  shows "\<exists>spans. shade_days sm ds start_dt end_dt idx = Inr spans"
proof (induction idx)
  case Nil
  show ?case by simp
next
  case (Cons i rest)
  from night_spans_at_returns[OF assms]
  obtain xs where "night_spans_at sm ds start_dt end_dt i = Inr xs" by blast
  moreover from Cons obtain ys where "shade_days sm ds start_dt end_dt rest = Inr ys" by blast
  ultimately show ?case by simp
qed

lemma night_intervals_returns: "\<exists>spans. night_intervals sm start_dt end_dt = Inr spans"
  unfolding night_intervals_def Let_def
  by (rule shade_days_returns) simp

text \<open>The loop over a list of indices that is split in two.\<close>

lemma shade_days_append:
  "shade_days sm ds start_dt end_dt (xs @ ys) =
     (case shade_days sm ds start_dt end_dt xs of
        Inl e \<Rightarrow> Inl e
      | Inr a \<Rightarrow>
          (case shade_days sm ds start_dt end_dt ys of
             Inl e \<Rightarrow> Inl e
           | Inr b \<Rightarrow> Inr (a @ b)))"
  by (induction xs) (auto split: sum.splits)

lemma upt_split_at:
  assumes "i < n"
  shows "[0..<n] = [0..<i] @ i # [i + 1..<n]"
proof -
  have "[0..<i + (n - i)] = [0..<i] @ [i..<i + (n - i)]"
    by (rule upt_add_eq_append) simp
  moreover have "i + (n - i) = n" using assms by simp
  ultimately have "[0..<n] = [0..<i] @ [i..<n]" by simp
  also have "[i..<n] = i # [i + 1..<n]" using assms by (simp add: upt_conv_Cons)
  finally show ?thesis .
qed

text \<open>
  C5.  The dates the builder walks are the keys of the data in ascending order.  For a
  date \<open>d = ds ! i\<close> of them whose successor is at most one calendar day later (sunset
  of \<open>d\<close> and sunrise of the successor both known, the plot window given by two
  timestamps), the spans the builder shades are those of the dates before \<open>d\<close>, then
  exactly \<open>[max(sunset(d), plot_start), min(sunrise(successor), plot_end)]\<close>, present
  only when its left end is strictly less than its right end, then those of the dates
  after \<open>d\<close>.
\<close>

theorem night_span_consecutive:
  assumes "ds = sort_key date_key (map fst sm)"
    and "i + 1 < length ds"
    and "map_of sm (ds ! i) = Some (sr, Some ss)"
    and "map_of sm (ds ! (i + 1)) = Some (Some sr_next, ss_next)"
    and "toordinal (ds ! (i + 1)) - toordinal (ds ! i) \<le> 1"
  shows "sorted (map date_key ds) \<and> set ds = fst ` set sm
    \<and> (\<exists>earlier later.
          shade_days sm ds (Some plot_start) (Some plot_end) [0..<i] = Inr earlier
        \<and> shade_days sm ds (Some plot_start) (Some plot_end) [i + 1..<length ds] = Inr later
        \<and> night_intervals sm (Some plot_start) (Some plot_end) =
            Inr (earlier
                 @ (if max ss plot_start < min sr_next plot_end
                    then [(max ss plot_start, min sr_next plot_end)] else [])
                 @ later))"
proof (intro conjI)
  show "sorted (map date_key ds)" unfolding assms(1) by (rule sorted_sort_key)
  show k: "set ds = fst ` set sm" unfolding assms(1) by simp
  then have sub: "set ds \<subseteq> fst ` set sm" by simp
  from shade_days_returns[OF sub] obtain earlier where
    e: "shade_days sm ds (Some plot_start) (Some plot_end) [0..<i] = Inr earlier" by blast
  from shade_days_returns[OF sub] obtain later where
    l: "shade_days sm ds (Some plot_start) (Some plot_end) [i + 1..<length ds] = Inr later"
    by blast
  have at: "night_spans_at sm ds (Some plot_start) (Some plot_end) i =
     Inr (if max ss plot_start < min sr_next plot_end
          then [(max ss plot_start, min sr_next plot_end)] else [])"
    using assms(2-5)
    by (simp add: night_spans_at_def Let_def py_max_Some py_min_Some axvspan_if_Some)
  have i: "i < length ds" using assms(2) by simp
  have "night_intervals sm (Some plot_start) (Some plot_end)
      = shade_days sm ds (Some plot_start) (Some plot_end) ([0..<i] @ i # [i + 1..<length ds])"
    unfolding night_intervals_def Let_def assms(1)[symmetric] upt_split_at[OF i] ..
  also have "\<dots> = Inr (earlier
                 @ (if max ss plot_start < min sr_next plot_end
                    then [(max ss plot_start, min sr_next plot_end)] else [])
                 @ later)"
  proof -
    from l have l': "shade_days sm ds (Some plot_start) (Some plot_end) [Suc i..<length ds] = Inr later"
      by simp
    show ?thesis
      unfolding shade_days_append shade_days.simps e at
      by (simp add: l')
  qed
  finally show "\<exists>earlier later.
          shade_days sm ds (Some plot_start) (Some plot_end) [0..<i] = Inr earlier
        \<and> shade_days sm ds (Some plot_start) (Some plot_end) [i + 1..<length ds] = Inr later
        \<and> night_intervals sm (Some plot_start) (Some plot_end) =
            Inr (earlier
                 @ (if max ss plot_start < min sr_next plot_end
                    then [(max ss plot_start, min sr_next plot_end)] else [])
                 @ later)"
    using e l by blast
qed

theorem night_span_consecutive_witness:
  "night_intervals
     [(\<lparr>year = 2023, month = 4, day = 3\<rparr>, (Some (86400 * 738613 + 22000), Some (86400 * 738613 + 66000))),
      (\<lparr>year = 2023, month = 4, day = 1\<rparr>, (Some (86400 * 738611 + 22000), Some (86400 * 738611 + 66000))),
      (\<lparr>year = 2023, month = 4, day = 2\<rparr>, (Some (86400 * 738612 + 22000), Some (86400 * 738612 + 66000)))]
     (Some (86400 * 738611 + 68400)) (Some (86400 * 738613 + 18000))
   = Inr [(86400 * 738611 + 68400, 86400 * 738612 + 22000),
          (86400 * 738612 + 66000, 86400 * 738613 + 18000)]"
proof -
  let ?sm = "[(\<lparr>year = 2023, month = 4, day = 3\<rparr>, (Some (86400 * 738613 + 22000), Some (86400 * 738613 + 66000))),
      (\<lparr>year = 2023, month = 4, day = 1\<rparr>, (Some (86400 * 738611 + 22000), Some (86400 * 738611 + 66000))),
      (\<lparr>year = 2023, month = 4, day = 2\<rparr>, (Some (86400 * 738612 + 22000), Some (86400 * 738612 + 66000)))]"
  let ?ds = "[\<lparr>year = 2023, month = 4, day = 1\<rparr>, \<lparr>year = 2023, month = 4, day = 2\<rparr>,
     \<lparr>year = 2023, month = 4, day = 3\<rparr>]"
  let ?ps = "Some (86400 * 738611 + 68400) :: timestamp"
  let ?pe = "Some (86400 * 738613 + 18000) :: timestamp"
  have o: "toordinal \<lparr>year = 2023, month = 4, day = 1\<rparr> = 738611"
    "toordinal \<lparr>year = 2023, month = 4, day = 2\<rparr> = 738612"
    "toordinal \<lparr>year = 2023, month = 4, day = 3\<rparr> = 738613"
    by (simp_all add: toordinal_def ymd2ord_def days_before_year_def days_before_month_def
        is_leap_def)
  have 0: "?ds = sort_key date_key (map fst ?sm)"
    by (simp add: date_key_def)
  have 1: "1 + 1 < length ?ds" by simp
  have 2: "map_of ?sm (?ds ! 1) = Some (Some (86400 * 738612 + 22000), Some (86400 * 738612 + 66000))"
    by simp
  have 3: "map_of ?sm (?ds ! (1 + 1))
      = Some (Some (86400 * 738613 + 22000), Some (86400 * 738613 + 66000))"
    by simp
  have 4: "toordinal (?ds ! (1 + 1)) - toordinal (?ds ! 1) \<le> 1"
    by (simp add: o)
  have e: "shade_days ?sm ?ds ?ps ?pe [0..<1]
      = Inr [(86400 * 738611 + 68400, 86400 * 738612 + 22000)]"
    by (simp add: night_spans_at_def Let_def o py_max_Some py_min_Some axvspan_if_Some)
  have l: "shade_days ?sm ?ds ?ps ?pe [1 + 1..<length ?ds] = Inr []"
    by (simp add: night_spans_at_def Let_def upt_rec)
  from night_span_consecutive[OF 0 1 2 3 4, of "86400 * 738611 + 68400" "86400 * 738613 + 18000"]
  show ?thesis
    unfolding e l by simp
qed

text \<open>
  C4.  When the next date with data is more than one calendar day after \<open>d = ds ! i\<close>,
  the iteration for \<open>d\<close> shades exactly two pieces, each only if non-empty: from
  \<open>max(sunset(d), plot_start)\<close> to \<open>min(midnight ending d, plot_end)\<close>, and from
  \<open>max(midnight starting the next date, plot_start)\<close> to
  \<open>min(sunrise(next date), plot_end)\<close>.  No span it shades reaches across the gap:
  each ends by the midnight that ends \<open>d\<close> or starts at or after the midnight that
  starts the next date.
\<close>

theorem night_span_gap:
  assumes "i + 1 < length ds"
    and "map_of sm (ds ! i) = Some (sr, Some ss)"
    and "map_of sm (ds ! (i + 1)) = Some (Some sr_next, ss_next)"
    and "1 < toordinal (ds ! (i + 1)) - toordinal (ds ! i)"
  shows "night_spans_at sm ds (Some plot_start) (Some plot_end) i =
     Inr ((if max ss plot_start < min (86400 * (toordinal (ds ! i) + 1)) plot_end
           then [(max ss plot_start, min (86400 * (toordinal (ds ! i) + 1)) plot_end)] else [])
          @ (if max (86400 * toordinal (ds ! (i + 1))) plot_start < min sr_next plot_end
             then [(max (86400 * toordinal (ds ! (i + 1))) plot_start, min sr_next plot_end)]
             else []))
    \<and> (\<forall>spans. night_spans_at sm ds (Some plot_start) (Some plot_end) i = Inr spans \<longrightarrow>
          (\<forall>(l, r) \<in> set spans.
             r \<le> 86400 * (toordinal (ds ! i) + 1) \<or> 86400 * toordinal (ds ! (i + 1)) \<le> l))"
proof -
  have eq: "night_spans_at sm ds (Some plot_start) (Some plot_end) i =
     Inr ((if max ss plot_start < min (86400 * (toordinal (ds ! i) + 1)) plot_end
           then [(max ss plot_start, min (86400 * (toordinal (ds ! i) + 1)) plot_end)] else [])
          @ (if max (86400 * toordinal (ds ! (i + 1))) plot_start < min sr_next plot_end
             then [(max (86400 * toordinal (ds ! (i + 1))) plot_start, min sr_next plot_end)]
             else []))"
    using assms
    by (simp add: night_spans_at_def Let_def py_max_Some py_min_Some axvspan_if_Some
        timestamp_of_date_def timestamp_add_days_def)
  show ?thesis
    unfolding eq by (auto split: if_splits)
qed

theorem night_span_gap_witness:
  "night_spans_at
     [(\<lparr>year = 2023, month = 4, day = 5\<rparr>, (Some (86400 * 738615 + 22000), Some (86400 * 738615 + 66000))),
     (\<lparr>year = 2023, month = 4, day = 1\<rparr>, (Some (86400 * 738611 + 22000), Some (86400 * 738611 + 66000))),
     (\<lparr>year = 2023, month = 4, day = 2\<rparr>, (Some (86400 * 738612 + 22000), Some (86400 * 738612 + 66000)))]
     [\<lparr>year = 2023, month = 4, day = 1\<rparr>, \<lparr>year = 2023, month = 4, day = 2\<rparr>,
     \<lparr>year = 2023, month = 4, day = 5\<rparr>]
     (Some (86400 * 738611 - 3600)) (Some (86400 * 738616 + 3600)) 1
   = Inr [(86400 * 738612 + 66000, 86400 * 738613), (86400 * 738615, 86400 * 738615 + 22000)]
   \<and> night_intervals
     [(\<lparr>year = 2023, month = 4, day = 5\<rparr>, (Some (86400 * 738615 + 22000), Some (86400 * 738615 + 66000))),
     (\<lparr>year = 2023, month = 4, day = 1\<rparr>, (Some (86400 * 738611 + 22000), Some (86400 * 738611 + 66000))),
     (\<lparr>year = 2023, month = 4, day = 2\<rparr>, (Some (86400 * 738612 + 22000), Some (86400 * 738612 + 66000)))]
     (Some (86400 * 738611 - 3600)) (Some (86400 * 738616 + 3600))
   = Inr [(86400 * 738611 + 66000, 86400 * 738612 + 22000),
          (86400 * 738612 + 66000, 86400 * 738613), (86400 * 738615, 86400 * 738615 + 22000)]"
proof -
  let ?sm = "[(\<lparr>year = 2023, month = 4, day = 5\<rparr>, (Some (86400 * 738615 + 22000), Some (86400 * 738615 + 66000))),
     (\<lparr>year = 2023, month = 4, day = 1\<rparr>, (Some (86400 * 738611 + 22000), Some (86400 * 738611 + 66000))),
     (\<lparr>year = 2023, month = 4, day = 2\<rparr>, (Some (86400 * 738612 + 22000), Some (86400 * 738612 + 66000)))]"
  let ?ds = "[\<lparr>year = 2023, month = 4, day = 1\<rparr>, \<lparr>year = 2023, month = 4, day = 2\<rparr>,
     \<lparr>year = 2023, month = 4, day = 5\<rparr>]"
  have o: "toordinal \<lparr>year = 2023, month = 4, day = 1\<rparr> = 738611"
    "toordinal \<lparr>year = 2023, month = 4, day = 2\<rparr> = 738612"
    "toordinal \<lparr>year = 2023, month = 4, day = 5\<rparr> = 738615"
    by (simp_all add: toordinal_def ymd2ord_def days_before_year_def days_before_month_def
        is_leap_def)
  have 1: "1 + 1 < length ?ds" by simp
  have 2: "map_of ?sm (?ds ! 1) = Some (Some (86400 * 738612 + 22000), Some (86400 * 738612 + 66000))"
    by simp
  have 3: "map_of ?sm (?ds ! (1 + 1))
      = Some (Some (86400 * 738615 + 22000), Some (86400 * 738615 + 66000))"
    by simp
  have 4: "1 < toordinal (?ds ! (1 + 1)) - toordinal (?ds ! 1)"
    by (simp add: o)
  have a: "night_spans_at ?sm ?ds (Some (86400 * 738611 - 3600)) (Some (86400 * 738616 + 3600)) 1
     = Inr [(86400 * 738612 + 66000, 86400 * 738613), (86400 * 738615, 86400 * 738615 + 22000)]"
    using night_span_gap[OF 1 2 3 4, of "86400 * 738611 - 3600" "86400 * 738616 + 3600"]
    by (simp add: o)
  have b: "night_intervals ?sm (Some (86400 * 738611 - 3600)) (Some (86400 * 738616 + 3600))
     = Inr [(86400 * 738611 + 66000, 86400 * 738612 + 22000),
          (86400 * 738612 + 66000, 86400 * 738613), (86400 * 738615, 86400 * 738615 + 22000)]"
    by (simp add: night_intervals_def night_spans_at_def Let_def date_key_def upt_rec o
        py_max_Some py_min_Some axvspan_if_Some timestamp_of_date_def timestamp_add_days_def)
  from a b show ?thesis by (rule conjI)
qed

text \<open>
  C6.  When the data has exactly one date \<open>d\<close> (sunrise and sunset known, the plot
  window given by two timestamps), the spans shaded are the pre-sunrise interval
  \<open>[plot_start, min(sunrise(d), plot_end)]\<close> and the post-sunset interval
  \<open>[max(sunset(d), plot_start), plot_end]\<close>, each only if non-empty.
\<close>

theorem single_date_spans:
  "night_intervals [(d, (Some sr, Some ss))] (Some plot_start) (Some plot_end) =
     Inr ((if plot_start < min sr plot_end then [(plot_start, min sr plot_end)] else [])
          @ (if max ss plot_start < plot_end then [(max ss plot_start, plot_end)] else []))"
  by (simp add: night_intervals_def night_spans_at_def Let_def py_max_Some py_min_Some
      axvspan_if_Some)

theorem single_date_spans_witness:
  "night_intervals
     [(\<lparr>year = 2023, month = 4, day = 18\<rparr>,
       (Some (86400 * 738628 + 22000), Some (86400 * 738628 + 66000)))]
     (Some (86400 * 738628)) (Some (86400 * 738628 + 86340))
   = Inr [(86400 * 738628, 86400 * 738628 + 22000),
          (86400 * 738628 + 66000, 86400 * 738628 + 86340)]"
  using single_date_spans[of "\<lparr>year = 2023, month = 4, day = 18\<rparr>"
      "86400 * 738628 + 22000" "86400 * 738628 + 66000" "86400 * 738628"
      "86400 * 738628 + 86340"]
  by simp

section \<open>The two copies of the calculator\<close>

lemma fig10_deg2rad_eq: "fig10_deg2rad = deg2rad"
  by (rule ext) (simp add: fig10_deg2rad_def deg2rad_def)

lemma fig10_rad2deg_eq: "fig10_rad2deg = rad2deg"
  by (rule ext) (simp add: fig10_rad2deg_def rad2deg_def)

lemma fig10_julian_day_eq: "fig10_julian_day = julian_day"
  by (rule ext) (simp only: fig10_julian_day_def julian_day_def)

lemma fig10_jd_to_jcent_eq: "fig10_jd_to_jcent = jd_to_jcent"
  by (rule ext) (simp only: fig10_jd_to_jcent_def jd_to_jcent_def)

lemma fig10_solar_coords_eq: "fig10_solar_coords = solar_coords"
  by (rule ext)
    (simp only: fig10_solar_coords_def solar_coords_def fig10_deg2rad_eq fig10_rad2deg_eq)

lemma fig10_hour_angle_eq: "fig10_hour_angle = hour_angle"
  by (intro ext) (simp only: fig10_hour_angle_def hour_angle_def fig10_deg2rad_eq)

lemma fig10_solar_transit_jd_eq: "fig10_solar_transit_jd = solar_transit_jd"
  by (intro ext)
    (simp only: fig10_solar_transit_jd_def solar_transit_jd_def fig10_deg2rad_eq)

lemma fig10_jd_to_utc_fields_eq: "fig10_jd_to_utc_fields = jd_to_utc_fields"
  by (rule ext) (simp only: fig10_jd_to_utc_fields_def jd_to_utc_fields_def)

lemma fig10_jd_to_utc_datetime_eq: "fig10_jd_to_utc_datetime = jd_to_utc_datetime"
  by (rule ext)
    (simp only: fig10_jd_to_utc_datetime_def jd_to_utc_datetime_def fig10_jd_to_utc_fields_eq)

text \<open>
  C10.  The two copies of the solar calculator are extensionally equal: for every date,
  latitude, longitude and time zone, \<open>sunrise_sunset_local\<close> of
  \<open>src/generators/fig10_5mhz_generator.py\<close> and of \<open>src/core/Combined.py\<close> give the same
  result, the same \<open>(sunrise, sunset)\<close> pair or the same exception.
\<close>

theorem sunrise_sunset_local_copies_equal:
  "fig10_sunrise_sunset_local d lat_deg lon_deg tz = sunrise_sunset_local d lat_deg lon_deg tz"
  by (simp only: fig10_sunrise_sunset_local_def sunrise_sunset_local_def fig10_julian_day_eq
      fig10_jd_to_jcent_eq fig10_solar_coords_eq fig10_hour_angle_eq fig10_deg2rad_eq
      fig10_rad2deg_eq fig10_solar_transit_jd_eq fig10_jd_to_utc_datetime_eq)

section \<open>The solar calculator\<close>

lemma ymd2ord_lower:
  assumes "valid_ymd y m d"
  shows "1 \<le> ymd2ord y m d"
proof -
  from assms month_cases[of m]
  have "m = 1 \<or> m = 2 \<or> m = 3 \<or> m = 4 \<or> m = 5 \<or> m = 6 \<or> m = 7 \<or> m = 8 \<or> m = 9
        \<or> m = 10 \<or> m = 11 \<or> m = 12"
    by (simp add: valid_ymd_def)
  then have "0 \<le> days_before_month y m"
    by (elim disjE) (simp_all add: days_before_month_def)
  moreover have "year_days 0 \<le> year_days (y - 1)"
    by (rule year_days_mono) (use assms in \<open>simp add: valid_ymd_def\<close>)
  moreover have "year_days 0 = 0" by (simp add: year_days_def leap_days_def)
  moreover have "1 \<le> d" using assms by (simp add: valid_ymd_def)
  ultimately show ?thesis
    by (simp add: ymd2ord_def days_before_year_leap_days year_days_def)
qed

lemma julian_day_range:
  assumes "valid_date d"
  shows "1721425.5 \<le> julian_day d" "julian_day d \<le> 5373483.5"
proof -
  have v: "valid_ymd (year d) (month d) (day d)" using assms by (simp add: valid_date_def)
  have jd: "julian_day d = of_int (toordinal d + 1721425) - 1/2"
    by (rule julian_day_toordinal) (use v in \<open>simp_all add: valid_ymd_def\<close>)
  have "1 \<le> toordinal d" "toordinal d \<le> 3652059"
    unfolding toordinal_def by (rule ymd2ord_lower[OF v], rule ymd2ord_upper[OF v])
  then show "1721425.5 \<le> julian_day d" "julian_day d \<le> 5373483.5"
    unfolding jd by simp_all
qed

lemma jcent_range:
  assumes "valid_date d"
  shows "-20 \<le> jd_to_jcent (julian_day d)" "jd_to_jcent (julian_day d) \<le> 80"
  using julian_day_range[OF assms] by (simp_all add: jd_to_jcent_def)

lemma obliquity_deg_range:
  assumes "-20 \<le> jc" "jc \<le> 80"
  shows "22 \<le> obliquity_deg jc" "obliquity_deg jc \<le> 24"
proof -
  define h where "h = 0.000000164 - 0.000000504 * jc"
  define g where "g = 0.0130042 + jc * h"
  have "- (1/20000) \<le> h \<and> h \<le> 1/20000" unfolding h_def using assms by simp
  then have h: "\<bar>h\<bar> \<le> 1/20000" by linarith
  have jc: "\<bar>jc\<bar> \<le> 80" using assms by linarith
  have "\<bar>jc * h\<bar> \<le> 80 * (1/20000)"
    unfolding abs_mult by (rule mult_mono[OF jc h]) simp_all
  then have "- (1/250) \<le> jc * h \<and> jc * h \<le> 1/250" by linarith
  then have g: "9/1000 \<le> g" "g \<le> 171/10000" unfolding g_def by simp_all
  have up: "jc * g \<le> 80 * (171/10000)"
  proof (cases "0 \<le> jc")
    case True
    then show ?thesis using mult_mono[of jc 80 g "171/10000"] assms g by simp
  next
    case False
    then have "jc * g \<le> 0" using g by (simp add: mult_le_0_iff)
    then show ?thesis by simp
  qed
  have lo: "- (20 * (171/10000)) \<le> jc * g"
  proof (cases "0 \<le> jc")
    case True
    then have "0 \<le> jc * g" using g by simp
    then show ?thesis by simp
  next
    case False
    then have "(- jc) * g \<le> 20 * (171/10000)"
      using mult_mono[of "- jc" 20 g "171/10000"] assms g by simp
    then show ?thesis by simp
  qed
  have "obliquity_deg jc = 23.439291 - jc * g" by (simp add: obliquity_deg_def g_def h_def)
  with up lo show "22 \<le> obliquity_deg jc" "obliquity_deg jc \<le> 24" by simp_all
qed

lemma deg2rad_bounds:
  assumes "22 \<le> x" "x \<le> 24"
  shows "0 < deg2rad x" "deg2rad x < pi / 2"
proof -
  have "0 < x * pi" using assms by (simp add: zero_less_mult_iff)
  then show "0 < deg2rad x" by (simp add: deg2rad_def)
  have "x * pi \<le> 24 * pi" using assms by simp
  also have "\<dots> < 90 * pi" by simp
  finally show "deg2rad x < pi / 2" by (simp add: deg2rad_def)
qed

lemma arcsin_scaled_sin:
  assumes e: "0 < e" "e < pi / 2" and s: "\<bar>s\<bar> \<le> 1"
  shows "\<bar>sin e * s\<bar> < 1" "\<bar>arcsin (sin e * s)\<bar> \<le> e" "0 < cos (arcsin (sin e * s))"
proof -
  have se0: "0 < sin e" using e by (intro sin_gt_zero) (simp_all add: field_simps)
  have "sin e < sin (pi / 2)"
    using e by (subst sin_mono_less_eq) simp_all
  then have se1: "sin e < 1" by simp
  have le: "\<bar>sin e * s\<bar> \<le> sin e"
    using se0 s by (simp add: abs_mult mult_le_cancel_left1)
  with se1 show lt: "\<bar>sin e * s\<bar> < 1" by linarith
  have up: "arcsin (sin e * s) \<le> arcsin (sin e)"
    by (rule arcsin_le_arcsin) (use le se1 lt in linarith)+
  have lo: "arcsin (- sin e) \<le> arcsin (sin e * s)"
    by (rule arcsin_le_arcsin) (use le se1 lt in linarith)+
  have "arcsin (sin e) = e" using e by (intro arcsin_sin) simp_all
  moreover have "arcsin (- sin e) = - e"
    using e by (simp add: arcsin_minus arcsin_sin)
  ultimately show "\<bar>arcsin (sin e * s)\<bar> \<le> e" using up lo by linarith
  then have "- (pi / 2) < arcsin (sin e * s)" "arcsin (sin e * s) < pi / 2"
    using e by linarith+
  then show "0 < cos (arcsin (sin e * s))" by (rule cos_gt_zero_pi)
qed

lemma solar_coords_returns:
  assumes "-20 \<le> jc" "jc \<le> 80"
  shows "\<exists>M lam dec alpha.
           solar_coords jc = Inr (M, lam, dec, alpha, deg2rad (obliquity_deg jc))
           \<and> \<bar>dec\<bar> \<le> deg2rad (obliquity_deg jc) \<and> 0 < cos dec"
proof -
  define eps where "eps = deg2rad (obliquity_deg jc)"
  have e: "0 < eps" "eps < pi / 2"
    unfolding eps_def by (rule deg2rad_bounds[OF obliquity_deg_range[OF assms]])+
  have a: "\<bar>sin eps * s\<bar> < 1" "\<bar>arcsin (sin eps * s)\<bar> \<le> eps"
    "0 < cos (arcsin (sin eps * s))" if "\<bar>s\<bar> \<le> 1" for s
    by (rule arcsin_scaled_sin[OF e that])+
  have as: "py_asin (sin eps * sin x) = Inr (arcsin (sin eps * sin x))" for x
  proof -
    have "\<bar>sin eps * sin x\<bar> < 1" by (rule a(1)) simp
    then have "- 1 \<le> sin eps * sin x \<and> sin eps * sin x \<le> 1" by linarith
    then show ?thesis by (simp add: py_asin_def)
  qed
  show ?thesis
    unfolding solar_coords_def Let_def obliquity_deg_def[symmetric] eps_def[symmetric] as
    using a(2,3) by (simp add: eps_def)
qed

lemma hour_angle_returns:
  assumes "cos lat_rad \<noteq> 0" "cos dec \<noteq> 0"
  shows "hour_angle lat_rad dec altitude =
           Inr (arccos (min 1 (max (-1)
                 ((sin (deg2rad altitude) - sin lat_rad * sin dec) / (cos lat_rad * cos dec)))))"
    and "0 \<le> arccos (min 1 (max (-1)
                 ((sin (deg2rad altitude) - sin lat_rad * sin dec) / (cos lat_rad * cos dec))))"
    and "arccos (min 1 (max (-1)
                 ((sin (deg2rad altitude) - sin lat_rad * sin dec) / (cos lat_rad * cos dec))))
          \<le> pi"
proof -
  define c where
    "c = min 1 (max (-1) ((sin (deg2rad altitude) - sin lat_rad * sin dec) / (cos lat_rad * cos dec)))"
  have c: "-1 \<le> c" "c \<le> 1" by (simp_all add: c_def)
  then have "py_acos c = Inr (arccos c)" by (simp add: py_acos_def)
  then show "hour_angle lat_rad dec altitude =
           Inr (arccos (min 1 (max (-1)
                 ((sin (deg2rad altitude) - sin lat_rad * sin dec) / (cos lat_rad * cos dec)))))"
    using assms by (simp add: hour_angle_def Let_def c_def)
  show "0 \<le> arccos (min 1 (max (-1)
                 ((sin (deg2rad altitude) - sin lat_rad * sin dec) / (cos lat_rad * cos dec))))"
    unfolding c_def[symmetric] by (rule arccos_lbound[OF c])
  show "arccos (min 1 (max (-1)
                 ((sin (deg2rad altitude) - sin lat_rad * sin dec) / (cos lat_rad * cos dec))))
          \<le> pi"
    unfolding c_def[symmetric] by (rule arccos_ubound[OF c])
qed

lemma solar_transit_jd_bounds:
  "\<bar>solar_transit_jd jd lw
      - (2451545.0009 + lw / (2 * pi) + of_int (py_round (jd - 2451545.0009 - lw / (2 * pi))))\<bar>
   \<le> 122 / 10000"
proof -
  have "\<bar>0.0053 * sin a - 0.0069 * sin b\<bar> \<le> 122 / 10000" for a b :: real
  proof -
    have e: "0.0053 * sin a - 0.0069 * sin b = (53 * sin a - 69 * sin b) / 10000"
      by simp
    have "- 1 \<le> sin a" "sin a \<le> 1" "- 1 \<le> sin b" "sin b \<le> 1"
      by (rule sin_ge_minus_one sin_le_one)+
    then have "- 122 \<le> 53 * sin a - 69 * sin b" "53 * sin a - 69 * sin b \<le> 122"
      by linarith+
    then have "\<bar>53 * sin a - 69 * sin b\<bar> \<le> 122" by linarith
    then show ?thesis unfolding e by simp
  qed
  then show ?thesis
    by (simp add: solar_transit_jd_def Let_def)
qed

lemma lw_turns: "deg2rad (- lon_deg) / (2 * pi) = - lon_deg / 360"
  by (simp add: deg2rad_def)

lemma rad2deg_turns:
  assumes "0 \<le> H" "H \<le> pi"
  shows "0 \<le> rad2deg H / 360" "rad2deg H / 360 \<le> 1 / 2"
proof -
  have "rad2deg H / 360 = H / (2 * pi)" by (simp add: rad2deg_def)
  moreover have "0 \<le> H / (2 * pi)" using assms by simp
  moreover have "H / (2 * pi) \<le> 1 / 2" using assms by (simp add: field_simps)
  ultimately show "0 \<le> rad2deg H / 360" "rad2deg H / 360 \<le> 1 / 2" by simp_all
qed

lemma py_round_bounds:
  assumes "of_int a \<le> x" "x \<le> of_int b"
  shows "a \<le> py_round x" "py_round x \<le> b"
proof -
  have f: "a \<le> \<lfloor>x\<rfloor>" using assms(1) by (simp add: le_floor_iff)
  have "\<lfloor>x\<rfloor> \<le> b" using assms(2) by (simp add: floor_le_iff)
  moreover have "\<lfloor>x\<rfloor> = b \<Longrightarrow> x - of_int \<lfloor>x\<rfloor> = 0"
    using assms(2) by linarith
  ultimately have u: "\<lfloor>x\<rfloor> + 1 \<le> b \<or> (\<lfloor>x\<rfloor> = b \<and> x - of_int \<lfloor>x\<rfloor> < 1/2)"
    by (cases "\<lfloor>x\<rfloor> = b") auto
  show "a \<le> py_round x" using f by (simp add: py_round_def Let_def)
  show "py_round x \<le> b" using u by (auto simp: py_round_def Let_def)
qed

lemma jd_to_utc_datetime_floor:
  assumes "0 \<le> jd + 0.5" "\<lfloor>jd + 0.5\<rfloor> = Z" "civil_of_jdn Z = (y, m, d)"
  shows "jd_to_utc_datetime jd =
     (case datetime_new y m d of
        Inl e \<Rightarrow> Inl e
      | Inr t \<Rightarrow> datetime_add_seconds t (py_round ((jd + 0.5 - of_int Z) * 86400)))"
  unfolding jd_to_utc_datetime_def jd_to_utc_fields_floor[OF assms(1)] assms(2) assms(3)
  by (simp only: prod.case)

lemma floor_between:
  fixes x :: real
  assumes "of_int z \<le> x" "x < of_int z + 1"
  shows "\<lfloor>x\<rfloor> = z"
  using assms by (simp add: floor_eq_iff)

lemma sunrise_sunset_local_steps:
  assumes "solar_coords (jd_to_jcent (julian_day d)) = Inr (M, lam, dec, alpha, eps)"
    and "hour_angle (deg2rad lat_deg) dec (-0.833) = Inr H"
  shows "sunrise_sunset_local d lat_deg lon_deg tz =
      (case jd_to_utc_datetime
              (solar_transit_jd (julian_day d) (deg2rad (- lon_deg)) - rad2deg H / 360) of
         Inl e \<Rightarrow> Inl e
       | Inr u1 \<Rightarrow>
           (case astimezone_naive tz u1 of
              Inl e \<Rightarrow> Inl e
            | Inr sr \<Rightarrow>
                (case jd_to_utc_datetime
                        (solar_transit_jd (julian_day d) (deg2rad (- lon_deg)) + rad2deg H / 360) of
                   Inl e \<Rightarrow> Inl e
                 | Inr u2 \<Rightarrow>
                     (case astimezone_naive tz u2 of
                        Inl e \<Rightarrow> Inl e
                      | Inr ss \<Rightarrow> Inr (sr, ss)))))"
  using assms by (simp add: sunrise_sunset_local_def Let_def)

lemma sunrise_sunset_local_0100_02_27:
  "sunrise_sunset_local \<lparr>year = 100, month = 2, day = 27\<rparr> 89 118.0385 (\<lambda>t. 28800)
     = Inl ValueError"
proof -
  let ?d = "\<lparr>year = 100, month = 2, day = 27\<rparr>"
  have v: "valid_date ?d"
    by (simp add: valid_date_def valid_ymd_def days_in_month_def is_leap_def)
  have jd: "julian_day ?d = 1757641.5"
    by (simp add: julian_day_def)
  from solar_coords_returns[OF jcent_range[OF v]]
  obtain M lam dec alpha where
    sc: "solar_coords (jd_to_jcent (julian_day ?d))
           = Inr (M, lam, dec, alpha, deg2rad (obliquity_deg (jd_to_jcent (julian_day ?d))))"
    and dec: "0 < cos dec"
    by blast
  have "0 < cos (deg2rad 89)"
    by (rule cos_gt_zero) (simp_all add: deg2rad_def)
  then have cl: "cos (deg2rad 89) \<noteq> 0" by simp
  define H where "H = arccos (min 1 (max (-1)
     ((sin (deg2rad (-0.833)) - sin (deg2rad 89) * sin dec) / (cos (deg2rad 89) * cos dec))))"
  have cd: "cos dec \<noteq> 0" using dec by simp
  have ha: "hour_angle (deg2rad 89) dec (-0.833) = Inr H"
    unfolding H_def by (rule hour_angle_returns(1)[OF cl cd])
  have H: "0 \<le> H" "H \<le> pi"
    unfolding H_def by (rule hour_angle_returns(2)[OF cl cd], rule hour_angle_returns(3)[OF cl cd])
  define Jt where "Jt = solar_transit_jd (julian_day ?d) (deg2rad (- 118.0385))"
  define T where "T = rad2deg H / 360"
  have T: "0 \<le> T" "T \<le> 1 / 2"
    unfolding T_def by (rule rad2deg_turns[OF H])+
  have n: "py_round (1757641.5 - 2451545.0009 - (- 118.0385 / 360)) = - 693903"
    by (simp add: py_round_def)
  have "\<bar>Jt - (2451545.0009 + (- 118.0385 / 360) + of_int (- 693903))\<bar> \<le> 122 / 10000"
    using solar_transit_jd_bounds[of "julian_day ?d" "deg2rad (- 118.0385)"]
    unfolding Jt_def lw_turns jd n .
  then have b: "\<bar>Jt - 1265502004571 / 720000\<bar> \<le> 122 / 10000" by simp
  have Jt: "1757641.66 \<le> Jt" "Jt \<le> 1757641.69"
  proof -
    from b have "1265502004571 / 720000 - 122 / 10000 \<le> Jt"
      "Jt \<le> 1265502004571 / 720000 + 122 / 10000" by linarith+
    then show "1757641.66 \<le> Jt" "Jt \<le> 1757641.69" by simp_all
  qed
  have set_floor: "\<lfloor>Jt + T + 0.5\<rfloor> = 1757642"
    by (rule floor_between) (use Jt T in simp_all)
  have c29: "civil_of_jdn 1757642 = (100, 2, 29)"
    by (simp add: civil_of_jdn_def jdn_A_def)
  have set_err: "jd_to_utc_datetime (Jt + T) = Inl ValueError"
    using jd_to_utc_datetime_floor[OF _ set_floor c29] Jt T
    by (simp add: datetime_new_def valid_ymd_def days_in_month_def is_leap_def)
  have rise: "jd_to_utc_datetime (Jt - T) = Inl ValueError
      \<or> (\<exists>u sr. jd_to_utc_datetime (Jt - T) = Inr u \<and> astimezone_naive (\<lambda>t. 28800) u = Inr sr)"
  proof (cases "Jt - T + 0.5 < 1757642")
    case True
    have fl: "\<lfloor>Jt - T + 0.5\<rfloor> = 1757641"
      by (rule floor_between) (use Jt T True in simp_all)
    have c28: "civil_of_jdn 1757641 = (100, 2, 28)"
      by (simp add: civil_of_jdn_def jdn_A_def)
    define s where "s = py_round ((Jt - T + 0.5 - of_int 1757641) * 86400)"
    have "1757641 \<le> Jt - T + 0.5" using Jt T by simp
    then have x: "of_int 0 \<le> (Jt - T + 0.5 - of_int 1757641) * 86400"
      "(Jt - T + 0.5 - of_int 1757641) * 86400 \<le> of_int 86400"
      using True by simp_all
    have s: "0 \<le> s" "s \<le> 86400"
      unfolding s_def by (rule py_round_bounds[OF x])+
    have o: "ymd2ord 100 2 28 = 36218"
      by (simp add: ymd2ord_def days_before_year_def days_before_month_def)
    have "jd_to_utc_datetime (Jt - T) = Inr (86400 * 36218 + s)"
      using jd_to_utc_datetime_floor[OF _ fl c28] Jt T s
      by (simp add: datetime_new_def valid_ymd_def days_in_month_def is_leap_def o
          datetime_add_seconds_def datetime_in_range_def s_def)
    moreover have "astimezone_naive (\<lambda>t. 28800) (86400 * 36218 + s)
        = Inr (86400 * 36218 + s + 28800)"
      using s by (simp add: astimezone_naive_def datetime_add_seconds_def datetime_in_range_def)
    ultimately show ?thesis by blast
  next
    case False
    have fl: "\<lfloor>Jt - T + 0.5\<rfloor> = 1757642"
      by (rule floor_between) (use Jt T False in simp_all)
    have "jd_to_utc_datetime (Jt - T) = Inl ValueError"
      using jd_to_utc_datetime_floor[OF _ fl c29] Jt T
      by (simp add: datetime_new_def valid_ymd_def days_in_month_def is_leap_def)
    then show ?thesis by blast
  qed
  have "sunrise_sunset_local ?d 89 118.0385 (\<lambda>t. 28800) =
      (case jd_to_utc_datetime (Jt - T) of
         Inl e \<Rightarrow> Inl e
       | Inr u1 \<Rightarrow>
           (case astimezone_naive (\<lambda>t. 28800) u1 of
              Inl e \<Rightarrow> Inl e
            | Inr sr \<Rightarrow>
                (case jd_to_utc_datetime (Jt + T) of
                   Inl e \<Rightarrow> Inl e
                 | Inr u2 \<Rightarrow>
                     (case astimezone_naive (\<lambda>t. 28800) u2 of
                        Inl e \<Rightarrow> Inl e
                      | Inr ss \<Rightarrow> Inr (sr, ss)))))"
    unfolding Jt_def T_def by (rule sunrise_sunset_local_steps[OF sc ha])
  also have "\<dots> = Inl ValueError"
    using rise by (auto simp: set_err)
  finally show ?thesis .
qed

section \<open>Sunrise before sunset\<close>

subsection \<open>The calendar conversion is monotone\<close>

lemma quarter_diff:
  fixes a b :: int
  assumes "a \<le> b"
  shows "b div 4 - a div 4 \<le> b - a"
proof -
  have "4 * (b div 4) \<le> b" by (rule div_bounds) simp
  moreover have "a < 4 * (a div 4) + 4" by (rule div_bounds) simp
  ultimately show ?thesis using assms by linarith
qed

lemma jdn_A_strict_mono:
  assumes "Z1 < Z2"
  shows "jdn_A Z1 < jdn_A Z2"
proof -
  define a1 where "a1 = (4 * Z1 - 7468865) div 146097"
  define a2 where "a2 = (4 * Z2 - 7468865) div 146097"
  have a12: "a1 \<le> a2"
    unfolding a1_def a2_def by (rule zdiv_mono1) (use assms in simp_all)
  have q: "a2 div 4 - a1 div 4 \<le> a2 - a1" by (rule quarter_diff[OF a12])
  have a2pos: "2299161 \<le> Z2 \<Longrightarrow> 0 \<le> a2"
    unfolding a2_def by (rule pos_imp_zdiv_nonneg_iff[THEN iffD2]) simp_all
  have q2: "0 \<le> a2 \<Longrightarrow> a2 div 4 \<le> a2"
    using quarter_diff[of 0 a2] by simp
  show ?thesis
  proof (cases "Z2 < 2299161")
    case True
    with assms show ?thesis by (simp add: jdn_A_def)
  next
    case False
    note z2 = this
    show ?thesis
    proof (cases "Z1 < 2299161")
      case True
      have "a2 div 4 \<le> a2" using a2pos q2 z2 by simp
      with True z2 assms show ?thesis by (simp add: jdn_A_def Let_def a2_def[symmetric])
    next
      case False
      with z2 assms q show ?thesis
        by (simp add: jdn_A_def Let_def a1_def[symmetric] a2_def[symmetric])
    qed
  qed
qed

lemma jdn_A_nonneg: "0 \<le> Z \<Longrightarrow> 0 \<le> jdn_A Z"
  using jdn_A_strict_mono[of "-1" Z] by (simp add: jdn_A_def)

text \<open>The intermediate values of \<open>civil_of_jdn\<close>.\<close>

lemma civil_of_jdn_parts:
  assumes "0 \<le> Z"
    and B_def: "B = jdn_A Z + 1524"
    and C_def: "C = (20 * B - 2442) div 7305"
    and R_def: "R = B - (1461 * C) div 4"
    and E_def: "E = (10000 * R) div 306001"
  shows "civil_of_jdn Z =
      (if E < 14 then C - 4716 else C - 4715, if E < 14 then E - 1 else E - 13,
       R - (306001 * E) div 10000)"
    and "123 \<le> R" and "R \<le> 488" and "4 \<le> E" and "E \<le> 15"
proof -
  have c: "7305 * C \<le> 20 * B - 2442" "20 * B - 2442 < 7305 * C + 7305"
    unfolding C_def by (rule div_bounds, simp)+
  define D where "D = (1461 * C) div 4"
  have d: "4 * D \<le> 1461 * C" "1461 * C < 4 * D + 4"
    unfolding D_def by (rule div_bounds, simp)+
  have R: "R = B - D" by (simp add: R_def D_def)
  show r1: "123 \<le> R" using c d unfolding R by linarith
  show r2: "R \<le> 488" using c d unfolding R by linarith
  have "(10000 * 123) div 306001 \<le> (10000 * R) div (306001::int)"
    by (rule zdiv_mono1) (use r1 in simp_all)
  then show e1: "4 \<le> E" by (simp add: E_def)
  have "(10000 * R) div 306001 \<le> (10000 * 488) div (306001::int)"
    by (rule zdiv_mono1) (use r2 in simp_all)
  then show e2: "E \<le> 15" by (simp add: E_def)
  have m: "(2 < (if E < 14 then E - 1 else E - 13)) = (E < 14)"
    using e1 e2 by auto
  show "civil_of_jdn Z =
      (if E < 14 then C - 4716 else C - 4715, if E < 14 then E - 1 else E - 13,
       R - (306001 * E) div 10000)"
    unfolding civil_of_jdn_def Let_def B_def[symmetric] C_def[symmetric] R_def[symmetric]
      E_def[symmetric] m
    by (rule refl)
qed

lemma civil_of_jdn_strict_mono:
  assumes "0 \<le> Z1" "Z1 < Z2"
    and "civil_of_jdn Z1 = (y1, m1, d1)" "civil_of_jdn Z2 = (y2, m2, d2)"
  shows "y1 < y2 \<or> (y1 = y2 \<and> (m1 < m2 \<or> (m1 = m2 \<and> d1 < d2)))"
proof -
  define B1 where "B1 = jdn_A Z1 + 1524"
  define C1 where "C1 = (20 * B1 - 2442) div 7305"
  define R1 where "R1 = B1 - (1461 * C1) div 4"
  define E1 where "E1 = (10000 * R1) div 306001"
  define B2 where "B2 = jdn_A Z2 + 1524"
  define C2 where "C2 = (20 * B2 - 2442) div 7305"
  define R2 where "R2 = B2 - (1461 * C2) div 4"
  define E2 where "E2 = (10000 * R2) div 306001"
  have z2: "0 \<le> Z2" using assms by simp
  note p1 = civil_of_jdn_parts[OF assms(1) B1_def C1_def R1_def E1_def]
  note p2 = civil_of_jdn_parts[OF z2 B2_def C2_def R2_def E2_def]
  have y1: "y1 = (if E1 < 14 then C1 - 4716 else C1 - 4715)"
    and m1: "m1 = (if E1 < 14 then E1 - 1 else E1 - 13)"
    and d1: "d1 = R1 - (306001 * E1) div 10000"
    using p1(1) assms(3) by simp_all
  have y2: "y2 = (if E2 < 14 then C2 - 4716 else C2 - 4715)"
    and m2: "m2 = (if E2 < 14 then E2 - 1 else E2 - 13)"
    and d2: "d2 = R2 - (306001 * E2) div 10000"
    using p2(1) assms(4) by simp_all
  have B: "B1 < B2"
    using jdn_A_strict_mono[OF assms(2)] by (simp add: B1_def B2_def)
  have C: "C1 \<le> C2"
    unfolding C1_def C2_def by (rule zdiv_mono1) (use B in simp_all)
  show ?thesis
  proof (cases "C1 = C2")
    case True
    then have R: "R1 < R2" using B by (simp add: R1_def R2_def)
    have E: "E1 \<le> E2"
      unfolding E1_def E2_def by (rule zdiv_mono1) (use R in simp_all)
    show ?thesis
    proof (cases "E1 = E2")
      case True
      with R \<open>C1 = C2\<close> show ?thesis by (simp add: y1 y2 m1 m2 d1 d2)
    next
      case False
      with E have "E1 < E2" by simp
      with \<open>C1 = C2\<close> p1(4,5) p2(4,5) show ?thesis by (auto simp: y1 y2 m1 m2)
    qed
  next
    case False
    with C have "C1 < C2" by simp
    with p1(4,5) p2(4,5) show ?thesis by (auto simp: y1 y2 m1 m2)
  qed
qed

lemma days_in_month_pos:
  assumes "1 \<le> m" "m \<le> 12"
  shows "28 \<le> days_in_month y m"
proof -
  from assms month_cases[of m]
  have "m = 1 \<or> m = 2 \<or> m = 3 \<or> m = 4 \<or> m = 5 \<or> m = 6 \<or> m = 7 \<or> m = 8 \<or> m = 9
        \<or> m = 10 \<or> m = 11 \<or> m = 12" by simp
  then show ?thesis by (elim disjE) (simp_all add: days_in_month_def)
qed

lemma days_before_month_step:
  assumes "1 \<le> m" "m \<le> 11"
  shows "days_before_month y (m + 1) = days_before_month y m + days_in_month y m"
proof -
  from assms month_cases[of m]
  have "m = 1 \<or> m = 2 \<or> m = 3 \<or> m = 4 \<or> m = 5 \<or> m = 6 \<or> m = 7 \<or> m = 8 \<or> m = 9
        \<or> m = 10 \<or> m = 11" by linarith
  then show ?thesis
    by (elim disjE) (simp_all add: days_in_month_def days_before_month_def)
qed

lemma days_before_month_mono:
  assumes "1 \<le> m1" "m1 < m2" "m2 \<le> 12"
  shows "days_before_month y m1 + days_in_month y m1 \<le> days_before_month y m2"
proof -
  have "m1 + 1 \<le> m2" using assms by simp
  then show ?thesis using assms(3)
  proof (induction m2 rule: int_ge_induct)
    case base
    show ?case using days_before_month_step[of m1 y] assms base by simp
  next
    case (step i)
    have "days_before_month y (i + 1) = days_before_month y i + days_in_month y i"
      by (rule days_before_month_step) (use step assms in linarith)+
    moreover have "28 \<le> days_in_month y i"
      by (rule days_in_month_pos) (use step assms in linarith)+
    moreover have "days_before_month y m1 + days_in_month y m1 \<le> days_before_month y i"
      using step by simp
    ultimately show ?case by linarith
  qed
qed

lemma days_before_month_nonneg:
  assumes "1 \<le> m" "m \<le> 12"
  shows "0 \<le> days_before_month y m"
proof -
  from assms month_cases[of m]
  have "m = 1 \<or> m = 2 \<or> m = 3 \<or> m = 4 \<or> m = 5 \<or> m = 6 \<or> m = 7 \<or> m = 8 \<or> m = 9
        \<or> m = 10 \<or> m = 11 \<or> m = 12" by simp
  then show ?thesis by (elim disjE) (simp_all add: days_before_month_def)
qed

lemma ymd2ord_strict_mono:
  assumes v1: "valid_ymd y1 m1 d1" and v2: "valid_ymd y2 m2 d2"
    and lt: "y1 < y2 \<or> (y1 = y2 \<and> (m1 < m2 \<or> (m1 = m2 \<and> d1 < d2)))"
  shows "ymd2ord y1 m1 d1 < ymd2ord y2 m2 d2"
proof -
  have o: "ymd2ord y m d = year_days (y - 1) + days_before_month y m + d" for y m d
    by (simp add: ymd2ord_def days_before_year_leap_days year_days_def)
  have r1: "1 \<le> m1" "m1 \<le> 12" "1 \<le> d1" "d1 \<le> days_in_month y1 m1"
    using v1 by (simp_all add: valid_ymd_def)
  have r2: "1 \<le> m2" "m2 \<le> 12" "1 \<le> d2" "d2 \<le> days_in_month y2 m2"
    using v2 by (simp_all add: valid_ymd_def)
  from lt consider "y1 < y2" | "y1 = y2" "m1 < m2" | "y1 = y2" "m1 = m2" "d1 < d2" by blast
  then show ?thesis
  proof cases
    case 1
    have "days_before_month y1 m1 + d1 \<le> 365 + (if is_leap y1 then 1 else 0)"
      by (rule year_day_bound[OF v1])
    then have "ymd2ord y1 m1 d1 \<le> year_days y1"
      using year_days_step[of "y1 - 1"] by (simp add: o)
    also have "\<dots> \<le> year_days (y2 - 1)"
      by (rule year_days_mono) (use 1 in simp)
    also have "\<dots> < ymd2ord y2 m2 d2"
      using days_before_month_nonneg[OF r2(1,2), of y2] r2(3) by (simp add: o)
    finally show ?thesis .
  next
    case 2
    have "days_before_month y1 m1 + days_in_month y1 m1 \<le> days_before_month y1 m2"
      by (rule days_before_month_mono) (use r1 r2 2 in simp_all)
    then show ?thesis using r1 r2 2 by (simp add: o)
  next
    case 3
    then show ?thesis by (simp add: o)
  qed
qed

lemma floor_plus_one: "\<lfloor>(x::real) + 1\<rfloor> = \<lfloor>x\<rfloor> + 1"
  by linarith

lemma py_round_near:
  "x - 1/2 \<le> of_int (py_round x)" "of_int (py_round x) \<le> x + 1/2"
proof -
  define k where "k = \<lfloor>x\<rfloor>"
  have f: "of_int k \<le> x" "x < of_int k + 1" unfolding k_def by linarith+
  have p: "py_round x = (if x - of_int k < 1/2 then k else if 1/2 < x - of_int k then k + 1
                         else if even k then k else k + 1)"
    by (simp add: py_round_def Let_def k_def)
  show "x - 1/2 \<le> of_int (py_round x)"
    unfolding p using f by (simp split: if_splits; linarith)
  show "of_int (py_round x) \<le> x + 1/2"
    unfolding p using f by (simp split: if_splits; linarith)
qed

lemma jd_to_utc_datetime_value:
  assumes "0 \<le> J + 0.5" "jd_to_utc_datetime J = Inr t"
  shows "\<exists>y m d. civil_of_jdn \<lfloor>J + 0.5\<rfloor> = (y, m, d) \<and> valid_ymd y m d
           \<and> t = 86400 * ymd2ord y m d + py_round ((J + 0.5 - of_int \<lfloor>J + 0.5\<rfloor>) * 86400)"
proof -
  obtain y m d where c: "civil_of_jdn \<lfloor>J + 0.5\<rfloor> = (y, m, d)"
    by (cases "civil_of_jdn \<lfloor>J + 0.5\<rfloor>") auto
  from jd_to_utc_datetime_floor[OF assms(1) refl c] assms(2)
  have "valid_ymd y m d
      \<and> t = 86400 * ymd2ord y m d + py_round ((J + 0.5 - of_int \<lfloor>J + 0.5\<rfloor>) * 86400)"
    by (auto simp: datetime_new_def datetime_add_seconds_def split: if_splits)
  with c show ?thesis by blast
qed

lemma rise_before_set:
  assumes J: "0 \<le> J1 + 0.5"
    and gap: "J1 + 1/4000 \<le> J2" "J2 \<le> J1 + 1"
    and r1: "jd_to_utc_datetime J1 = Inr t1"
    and r2: "jd_to_utc_datetime J2 = Inr t2"
  shows "t1 < t2"
proof -
  define Z1 where "Z1 = \<lfloor>J1 + 0.5\<rfloor>"
  define Z2 where "Z2 = \<lfloor>J2 + 0.5\<rfloor>"
  define x1 where "x1 = (J1 + 0.5 - of_int Z1) * 86400"
  define x2 where "x2 = (J2 + 0.5 - of_int Z2) * 86400"
  have J2: "0 \<le> J2 + 0.5" using J gap by linarith
  from jd_to_utc_datetime_value[OF J r1] obtain y1 m1 d1 where
    c1: "civil_of_jdn Z1 = (y1, m1, d1)" and v1: "valid_ymd y1 m1 d1"
    and t1: "t1 = 86400 * ymd2ord y1 m1 d1 + py_round x1"
    unfolding Z1_def x1_def by blast
  from jd_to_utc_datetime_value[OF J2 r2] obtain y2 m2 d2 where
    c2: "civil_of_jdn Z2 = (y2, m2, d2)" and v2: "valid_ymd y2 m2 d2"
    and t2: "t2 = 86400 * ymd2ord y2 m2 d2 + py_round x2"
    unfolding Z2_def x2_def by blast
  have Z10: "0 \<le> Z1" using J by (simp add: Z1_def)
  have Z12: "Z1 \<le> Z2" unfolding Z1_def Z2_def by (rule floor_mono) (use gap in linarith)
  have "J2 + 0.5 \<le> (J1 + 0.5) + 1" using gap by linarith
  then have "Z2 \<le> \<lfloor>(J1 + 0.5) + 1\<rfloor>" unfolding Z2_def by (rule floor_mono)
  also have "\<lfloor>(J1 + 0.5) + 1\<rfloor> = \<lfloor>J1 + 0.5\<rfloor> + 1" by (rule floor_plus_one)
  finally have Z21: "Z2 \<le> Z1 + 1" unfolding Z1_def .
  have n1: "x1 - 1/2 \<le> of_int (py_round x1)" "of_int (py_round x1) \<le> x1 + 1/2"
    by (rule py_round_near)+
  have n2: "x2 - 1/2 \<le> of_int (py_round x2)" "of_int (py_round x2) \<le> x2 + 1/2"
    by (rule py_round_near)+
  have d: "real_of_int Z2 * 86400 + x2 - (real_of_int Z1 * 86400 + x1) = (J2 - J1) * 86400"
    by (simp add: x1_def x2_def algebra_simps)
  have g: "(J2 - J1) * 86400 \<ge> 21" using gap(1) by simp
  show ?thesis
  proof (cases "Z1 = Z2")
    case True
    with c1 c2 have eq: "y1 = y2" "m1 = m2" "d1 = d2" by simp_all
    have "x1 + 21 \<le> x2" using d g True by simp
    then have "real_of_int (py_round x1) < real_of_int (py_round x2)" using n1 n2 by linarith
    then show ?thesis by (simp add: t1 t2 eq)
  next
    case False
    with Z12 Z21 have z: "Z2 = Z1 + 1" "Z1 < Z2" by simp_all
    have "ymd2ord y1 m1 d1 < ymd2ord y2 m2 d2"
      by (rule ymd2ord_strict_mono[OF v1 v2 civil_of_jdn_strict_mono[OF Z10 z(2) c1 c2]])
    then have o: "86400 * ymd2ord y1 m1 d1 + 86400 \<le> 86400 * ymd2ord y2 m2 d2" by simp
    have "x1 + 21 \<le> x2 + 86400" using d g z(1) by simp
    then have "real_of_int (py_round x1) < real_of_int (py_round x2) + 86400"
      using n1 n2 by linarith
    then have "py_round x1 < py_round x2 + 86400" by linarith
    with o show ?thesis by (simp add: t1 t2)
  qed
qed

subsection \<open>A lower bound for the hour angle\<close>

lemma sin_lower:
  fixes x :: real
  assumes "0 \<le> x" "x \<le> 1"
  shows "5 / 6 * x \<le> sin x"
proof -
  have s: "(\<Sum>m<3. sin_coeff m * x ^ m) = x"
    by (simp add: numeral_3_eq_3 sin_coeff_def)
  from Maclaurin_sin_bound[of x 3]
  have "\<bar>sin x - x\<bar> \<le> inverse (fact 3) * \<bar>x\<bar> ^ 3" unfolding s .
  moreover have "inverse (fact 3) * \<bar>x\<bar> ^ 3 = x ^ 3 / 6"
    using assms by (simp add: numeral_3_eq_3)
  moreover have "x ^ 3 \<le> x"
  proof -
    have "x ^ 2 \<le> 1" using assms by (simp add: power_le_one)
    then have "x * x ^ 2 \<le> x * 1" using assms(1) by (rule mult_left_mono)
    then show ?thesis by (simp add: power3_eq_cube power2_eq_square)
  qed
  ultimately show ?thesis by linarith
qed

lemma cos_lower: "1 - x\<^sup>2 / 2 \<le> cos (x::real)"
proof -
  have "cos x = cos (2 * (x / 2))" by simp
  also have "\<dots> = 1 - 2 * sin (x / 2) ^ 2" by (rule cos_double_sin)
  finally have c: "cos x = 1 - 2 * sin (x / 2) ^ 2" .
  have "\<bar>sin (x / 2)\<bar> \<le> \<bar>x / 2\<bar>" by (rule abs_sin_x_le_abs_x)
  then have "sin (x / 2) ^ 2 \<le> (x / 2) ^ 2"
    by (simp only: abs_le_square_iff)
  then show ?thesis unfolding c by (simp add: power2_eq_square)
qed

lemma cos_near_right_angle:
  assumes "\<bar>t\<bar> \<le> pi / 2 + u" "0 \<le> u" "u \<le> pi / 2"
  shows "- sin u \<le> cos t"
proof (cases "\<bar>t\<bar> \<le> pi / 2")
  case True
  then have "0 \<le> cos t" by (intro cos_ge_zero) linarith+
  moreover have "0 \<le> sin u" by (rule sin_ge_zero) (use assms in linarith)+
  ultimately show ?thesis by linarith
next
  case False
  have "cos (pi / 2 + u) \<le> cos \<bar>t\<bar>"
    by (rule cos_monotone_0_pi_le) (use assms False in linarith)+
  moreover have "cos (pi / 2 + u) = - sin u" by (simp add: cos_add)
  ultimately show ?thesis by simp
qed

text \<open>The difference \<open>sin 0.833\<degree> - sin 0.5\<degree>\<close> is at least 1/1000.\<close>

lemma sin_gap:
  "1 / 1000 \<le> sin (deg2rad 0.833) - sin (pi / 360)"
proof -
  define w where "w = (deg2rad 0.833 - pi / 360) / 2"
  define v where "v = (deg2rad 0.833 + pi / 360) / 2"
  have w: "w = 333 * pi / 360000" by (simp add: w_def deg2rad_def)
  have v: "v = 1333 * pi / 360000" by (simp add: v_def deg2rad_def)
  have p: "2 \<le> pi" "pi < 4" by (rule pi_ge_two, rule pi_less_4)
  have w1: "666 / 360000 \<le> w" "w \<le> 1" "0 \<le> w" unfolding w using p by simp_all
  have "5 / 6 * w \<le> sin w" by (rule sin_lower[OF w1(3,2)])
  then have sw: "3 / 2000 \<le> sin w" using w1(1) by linarith
  have "cos (pi / 3) \<le> cos v"
    by (rule cos_monotone_0_pi_le) (use p in \<open>simp_all add: v\<close>)
  then have cv: "1 / 2 \<le> cos v" by (simp add: cos_60)
  have "sin (deg2rad 0.833) - sin (pi / 360) = 2 * sin w * cos v"
    unfolding w_def v_def by (rule sin_diff_sin)
  moreover have "3 / 2000 * (1 / 2) \<le> sin w * cos v"
    by (rule mult_mono[OF sw cv]) (use sw in simp_all)
  ultimately show ?thesis by linarith
qed

lemma hour_angle_lower:
  assumes lat: "-66.5 < lat_deg" "lat_deg < 66.5"
    and dec: "\<bar>dec\<bar> \<le> deg2rad 24"
  shows "1 / 1000 \<le> arccos (min 1 (max (-1)
           ((sin (deg2rad (-0.833)) - sin (deg2rad lat_deg) * sin dec)
            / (cos (deg2rad lat_deg) * cos dec))))"
proof -
  define p where "p = deg2rad lat_deg"
  define a where "a = deg2rad 0.833"
  define P where "P = cos p * cos dec"
  define cu where "cu = (sin (deg2rad (-0.833)) - sin p * sin dec) / P"
  have pi4: "2 \<le> pi" "pi < 4" by (rule pi_ge_two, rule pi_less_4)
  have "(- (133 / 2)) * pi < lat_deg * pi"
    by (rule mult_strict_right_mono) (use lat in simp_all)
  moreover have "lat_deg * pi < 133 / 2 * pi"
    by (rule mult_strict_right_mono) (use lat in simp_all)
  ultimately have pb: "- (133 * pi / 360) < p" "p < 133 * pi / 360"
    by (simp_all add: p_def deg2rad_def)
  have db: "- (48 * pi / 360) \<le> dec" "dec \<le> 48 * pi / 360"
    using dec by (simp_all add: deg2rad_def abs_le_iff)
  have cp: "0 < cos p" by (rule cos_gt_zero_pi) (use pb pi4 in linarith)+
  have cd: "0 < cos dec" by (rule cos_gt_zero_pi) (use db pi4 in linarith)+
  have P0: "0 < P" unfolding P_def using cp cd by simp
  have P1: "P \<le> 1" unfolding P_def by (rule mult_le_one) (use cd in simp_all)
  have "\<bar>p - dec\<bar> \<le> pi / 2 + pi / 360" using pb db by linarith
  then have "- sin (pi / 360) \<le> cos (p - dec)"
    by (rule cos_near_right_angle) (use pi4 in simp_all)
  then have m: "1 / 1000 \<le> cos (p - dec) + sin a"
    using sin_gap unfolding a_def by linarith
  have sa: "sin (deg2rad (-0.833)) = - sin a"
    by (simp add: a_def deg2rad_def)
  have "P * (1 - cu) = P - (sin (deg2rad (-0.833)) - sin p * sin dec)"
    using P0 by (simp add: cu_def field_simps)
  also have "\<dots> = cos (p - dec) + sin a"
    unfolding sa P_def by (simp add: cos_diff)
  finally have e: "P * (1 - cu) = cos (p - dec) + sin a" .
  have "1 / 1000 \<le> 1 - cu"
  proof (rule ccontr)
    assume "\<not> 1 / 1000 \<le> 1 - cu"
    then have lt: "1 - cu < 1 / 1000" by simp
    show False
    proof (cases "0 \<le> 1 - cu")
      case True
      then have "P * (1 - cu) \<le> 1 * (1 - cu)" using P1 by (intro mult_right_mono)
      then have "P * (1 - cu) \<le> 1 - cu" by simp
      with lt e m show False by linarith
    next
      case False
      then have "P * (1 - cu) < 0" using P0 by (simp add: mult_less_0_iff)
      with e m show False by linarith
    qed
  qed
  then have cu: "cu \<le> 999 / 1000" by linarith
  define c where "c = min 1 (max (-1) cu)"
  have c: "- 1 \<le> c" "c \<le> 999 / 1000" using cu by (simp_all add: c_def)
  have "1 - (1 / 1000)\<^sup>2 / 2 \<le> cos (1 / 1000 :: real)" by (rule cos_lower)
  then have k: "999 / 1000 \<le> cos (1 / 1000 :: real)" by (simp add: power2_eq_square)
  have "arccos (cos (1 / 1000)) \<le> arccos c"
    by (rule arccos_le_arccos) (use c k in simp_all)
  moreover have "arccos (cos (1 / 1000)) = 1 / 1000"
    by (rule arccos_cos) (use pi4 in simp_all)
  ultimately show ?thesis by (simp add: c_def cu_def P_def p_def)
qed

lemma solar_transit_jd_lower: "jd - 1 \<le> solar_transit_jd jd lw"
proof -
  define x where "x = lw / (2 * pi)"
  define n where "n = py_round (jd - 2451545.0009 - x)"
  have "\<bar>solar_transit_jd jd lw - (2451545.0009 + x + of_int n)\<bar> \<le> 122 / 10000"
    unfolding x_def n_def by (rule solar_transit_jd_bounds)
  then have "2451545.0009 + x + of_int n - 122 / 10000 \<le> solar_transit_jd jd lw"
    by linarith
  moreover have "jd - 2451545.0009 - x - 1 / 2 \<le> of_int n"
    unfolding n_def by (rule py_round_near)
  ultimately show ?thesis by linarith
qed

lemma rad2deg_turns_lower:
  assumes "1 / 1000 \<le> H"
  shows "1 / 8000 \<le> rad2deg H / 360"
proof -
  have e: "rad2deg H / 360 = H / (2 * pi)" by (simp add: rad2deg_def)
  have "1 / 1000 / (2 * 4) \<le> H / (2 * pi)"
    by (rule frac_le) (use assms pi_less_4 in simp_all)
  then show ?thesis unfolding e by simp
qed

lemma cos_latitude_pos:
  assumes "-66.5 < lat_deg" "lat_deg < 66.5"
  shows "0 < cos (deg2rad lat_deg)"
proof -
  have "(- (133 / 2)) * pi < lat_deg * pi"
    by (rule mult_strict_right_mono) (use assms in simp_all)
  moreover have "lat_deg * pi < 133 / 2 * pi"
    by (rule mult_strict_right_mono) (use assms in simp_all)
  ultimately have "- (133 * pi / 360) < deg2rad lat_deg" "deg2rad lat_deg < 133 * pi / 360"
    by (simp_all add: deg2rad_def)
  then show ?thesis
    by (intro cos_gt_zero_pi) (use pi_gt_zero in linarith)+
qed

lemma astimezone_fixed:
  assumes "astimezone_naive (\<lambda>t. offset) u = Inr x"
  shows "x = u + offset"
  using assms by (simp add: astimezone_naive_def datetime_add_seconds_def split: if_splits)

lemma rise_lt_set:
  assumes "valid_date d" "-66.5 < lat_deg" "lat_deg < 66.5"
    and "sunrise_sunset_local d lat_deg lon_deg (\<lambda>t. offset) = Inr (sunrise_local, sunset_local)"
  shows "sunrise_local < sunset_local"
proof -
  note jc = jcent_range[OF assms(1)]
  from solar_coords_returns[OF jc]
  obtain M lam dec alpha where
    sc: "solar_coords (jd_to_jcent (julian_day d))
           = Inr (M, lam, dec, alpha, deg2rad (obliquity_deg (jd_to_jcent (julian_day d))))"
    and de: "\<bar>dec\<bar> \<le> deg2rad (obliquity_deg (jd_to_jcent (julian_day d)))"
    and dc: "0 < cos dec"
    by blast
  have "obliquity_deg (jd_to_jcent (julian_day d)) * pi \<le> 24 * pi"
    by (rule mult_right_mono) (use obliquity_deg_range(2)[OF jc] in simp_all)
  then have "deg2rad (obliquity_deg (jd_to_jcent (julian_day d))) \<le> deg2rad 24"
    by (simp add: deg2rad_def)
  with de have dec: "\<bar>dec\<bar> \<le> deg2rad 24" by linarith
  have cl: "cos (deg2rad lat_deg) \<noteq> 0"
    using cos_latitude_pos[OF assms(2,3)] by simp
  have cd: "cos dec \<noteq> 0" using dc by simp
  define H where "H = arccos (min 1 (max (-1)
     ((sin (deg2rad (-0.833)) - sin (deg2rad lat_deg) * sin dec)
      / (cos (deg2rad lat_deg) * cos dec))))"
  have ha: "hour_angle (deg2rad lat_deg) dec (-0.833) = Inr H"
    unfolding H_def by (rule hour_angle_returns(1)[OF cl cd])
  have H: "0 \<le> H" "H \<le> pi"
    unfolding H_def by (rule hour_angle_returns(2)[OF cl cd], rule hour_angle_returns(3)[OF cl cd])
  have Hl: "1 / 1000 \<le> H"
    unfolding H_def by (rule hour_angle_lower[OF assms(2,3) dec])
  define Jt where "Jt = solar_transit_jd (julian_day d) (deg2rad (- lon_deg))"
  define T where "T = rad2deg H / 360"
  have T: "1 / 8000 \<le> T" "T \<le> 1 / 2"
    unfolding T_def by (rule rad2deg_turns_lower[OF Hl], rule rad2deg_turns(2)[OF H])
  have "julian_day d - 1 \<le> Jt" unfolding Jt_def by (rule solar_transit_jd_lower)
  then have J0: "0 \<le> (Jt - T) + 0.5"
    using julian_day_range(1)[OF assms(1)] T by simp
  from sunrise_sunset_local_steps[OF sc ha, of lon_deg "\<lambda>t. offset"] assms(4)
  obtain u1 u2 where
    r: "jd_to_utc_datetime (Jt - T) = Inr u1" "astimezone_naive (\<lambda>t. offset) u1 = Inr sunrise_local"
       "jd_to_utc_datetime (Jt + T) = Inr u2" "astimezone_naive (\<lambda>t. offset) u2 = Inr sunset_local"
    unfolding Jt_def[symmetric] T_def[symmetric]
    by (auto split: sum.splits)
  have "u1 < u2"
    by (rule rise_before_set[OF J0 _ _ r(1) r(3)]) (use T in simp_all)
  with astimezone_fixed[OF r(2)] astimezone_fixed[OF r(4)] show ?thesis by simp
qed

subsection \<open>Dates for which the calculator returns\<close>

lemma next_day_exists:
  assumes v: "valid_ymd y m d" and lt: "ymd2ord y m d < 3652059"
  shows "\<exists>y' m' d'. valid_ymd y' m' d' \<and> ymd2ord y' m' d' = ymd2ord y m d + 1"
proof -
  have o: "ymd2ord y m d = year_days (y - 1) + days_before_month y m + d" for y m d
    by (simp add: ymd2ord_def days_before_year_leap_days year_days_def)
  have r: "1 \<le> y" "y \<le> 9999" "1 \<le> m" "m \<le> 12" "1 \<le> d" "d \<le> days_in_month y m"
    using v by (simp_all add: valid_ymd_def)
  show ?thesis
  proof (cases "d < days_in_month y m")
    case True
    then have "valid_ymd y m (d + 1)" using r by (simp add: valid_ymd_def)
    moreover have "ymd2ord y m (d + 1) = ymd2ord y m d + 1" by (simp add: o)
    ultimately show ?thesis by blast
  next
    case False
    then have d: "d = days_in_month y m" using r by simp
    show ?thesis
    proof (cases "m < 12")
      case True
      have "28 \<le> days_in_month y (m + 1)"
        by (rule days_in_month_pos) (use r True in simp_all)
      then have "valid_ymd y (m + 1) 1" using r True by (simp add: valid_ymd_def)
      moreover have "days_before_month y (m + 1) = days_before_month y m + days_in_month y m"
        by (rule days_before_month_step) (use r True in simp_all)
      then have "ymd2ord y (m + 1) 1 = ymd2ord y m d + 1" by (simp add: o d)
      ultimately show ?thesis by blast
    next
      case False
      then have m: "m = 12" using r by simp
      have e: "ymd2ord y m d = year_days y"
        using year_days_step[of "y - 1"]
        by (simp add: o d m days_in_month_def days_before_month_def)
      have "y \<noteq> 9999"
      proof
        assume "y = 9999"
        then have "ymd2ord y m d = 3652059" unfolding e by (simp add: year_days_def leap_days_def)
        with lt show False by simp
      qed
      then have "valid_ymd (y + 1) 1 1" using r by (simp add: valid_ymd_def days_in_month_def)
      moreover have "ymd2ord (y + 1) 1 1 = ymd2ord y m d + 1"
        unfolding e by (simp add: o days_before_month_def)
      ultimately show ?thesis by blast
    qed
  qed
qed

lemma ordinal_has_date:
  assumes "577736 \<le> n" "n \<le> 3652059"
  shows "\<exists>y m d. valid_ymd y m d \<and> ymd2ord y m d = n"
  using assms
proof (induction n rule: int_ge_induct)
  case base
  have "valid_ymd 1582 10 15" by (simp add: valid_ymd_def days_in_month_def)
  moreover have "ymd2ord 1582 10 15 = 577736"
    by (simp add: ymd2ord_def days_before_year_def days_before_month_def is_leap_def)
  ultimately show ?case by blast
next
  case (step i)
  then obtain y m d where v: "valid_ymd y m d" and o: "ymd2ord y m d = i" by auto
  from next_day_exists[OF v] o step.prems show ?case by auto
qed

lemma civil_of_jdn_valid:
  assumes "2299161 \<le> Z" "Z \<le> 5373484"
  shows "\<exists>y m d. civil_of_jdn Z = (y, m, d) \<and> valid_ymd y m d \<and> ymd2ord y m d = Z - 1721425"
proof -
  from ordinal_has_date[of "Z - 1721425"] assms
  obtain y m d where v: "valid_ymd y m d" and o: "ymd2ord y m d = Z - 1721425" by auto
  have "civil_of_jdn (ymd2ord y m d + 1721425) = (y, m, d)"
    by (rule civil_of_jdn_ymd2ord[OF v]) (use o assms in simp)
  with v o show ?thesis by simp
qed

lemma jd_to_utc_datetime_returns:
  assumes "2299161 \<le> \<lfloor>J + 0.5\<rfloor>" "\<lfloor>J + 0.5\<rfloor> \<le> 5373482"
  shows "\<exists>t. jd_to_utc_datetime J = Inr t
           \<and> 86400 * 577736 \<le> t \<and> t \<le> 86400 * 3652058"
proof -
  define Z where "Z = \<lfloor>J + 0.5\<rfloor>"
  define s where "s = py_round ((J + 0.5 - of_int Z) * 86400)"
  have z: "2299161 \<le> Z" "Z \<le> 5373482" using assms by (simp_all add: Z_def)
  from civil_of_jdn_valid[of Z] z
  obtain y m d where c: "civil_of_jdn Z = (y, m, d)" and v: "valid_ymd y m d"
    and o: "ymd2ord y m d = Z - 1721425" by auto
  have f: "of_int Z \<le> J + 0.5" "J + 0.5 < of_int Z + 1" unfolding Z_def by linarith+
  then have x: "of_int 0 \<le> (J + 0.5 - of_int Z) * 86400"
    "(J + 0.5 - of_int Z) * 86400 \<le> of_int 86400" by simp_all
  have s: "0 \<le> s" "s \<le> 86400" unfolding s_def by (rule py_round_bounds[OF x])+
  have J0: "0 \<le> J + 0.5" using f(1) z(1) by linarith
  have "jd_to_utc_datetime J = Inr (86400 * (Z - 1721425) + s)"
    using jd_to_utc_datetime_floor[OF J0 Z_def[symmetric] c] s z
    by (simp add: datetime_new_def v o datetime_add_seconds_def datetime_in_range_def s_def)
  moreover have "86400 * 577736 \<le> 86400 * (Z - 1721425) + s" using s z by simp
  moreover have "86400 * (Z - 1721425) + s \<le> 86400 * 3652058" using s z by simp
  ultimately show ?thesis by blast
qed

lemma solar_transit_jd_upper: "solar_transit_jd jd lw \<le> jd + 1"
proof -
  define x where "x = lw / (2 * pi)"
  define n where "n = py_round (jd - 2451545.0009 - x)"
  have "\<bar>solar_transit_jd jd lw - (2451545.0009 + x + of_int n)\<bar> \<le> 122 / 10000"
    unfolding x_def n_def by (rule solar_transit_jd_bounds)
  then have "solar_transit_jd jd lw \<le> 2451545.0009 + x + of_int n + 122 / 10000"
    by linarith
  moreover have "of_int n \<le> jd - 2451545.0009 - x + 1 / 2"
    unfolding n_def by (rule py_round_near)
  ultimately show ?thesis by linarith
qed

lemma toordinal_mono:
  assumes "valid_date a" "valid_date b" "date_le a b"
  shows "toordinal a \<le> toordinal b"
proof (cases "year a = year b \<and> month a = month b \<and> day a = day b")
  case True
  then show ?thesis by (simp add: toordinal_def)
next
  case False
  with assms(3) have "year a < year b
      \<or> (year a = year b \<and> (month a < month b \<or> (month a = month b \<and> day a < day b)))"
    by (auto simp: date_le_def)
  from ymd2ord_strict_mono[OF _ _ this] assms(1,2)
  show ?thesis by (simp add: toordinal_def valid_date_def)
qed

lemma astimezone_fixed_returns:
  assumes "86400 * 577736 \<le> u" "u \<le> 86400 * 3652058" "\<bar>offset\<bar> \<le> 86400"
  shows "astimezone_naive (\<lambda>t. offset) u = Inr (u + offset)"
proof -
  have o: "- 86400 \<le> offset" "offset \<le> 86400" using assms(3) by linarith+
  have "datetime_in_range (u + offset)"
    unfolding datetime_in_range_def using assms(1,2) o by simp
  then show ?thesis by (simp add: astimezone_naive_def datetime_add_seconds_def)
qed

lemma sunrise_sunset_local_returns:
  assumes v: "valid_date d"
    and cl: "cos (deg2rad lat_deg) \<noteq> 0"
    and lo: "date_le \<lparr>year = 1582, month = 10, day = 17\<rparr> d"
    and hi: "date_le d \<lparr>year = 9999, month = 12, day = 28\<rparr>"
    and off: "\<bar>offset\<bar> \<le> 86400"
  shows "\<exists>sr ss. sunrise_sunset_local d lat_deg lon_deg (\<lambda>t. offset) = Inr (sr, ss)"
proof -
  define N where "N = toordinal d + 1721425"
  have "valid_date \<lparr>year = 1582, month = 10, day = 17\<rparr>"
    by (simp add: valid_date_def valid_ymd_def days_in_month_def)
  from toordinal_mono[OF this v lo] have "577738 \<le> toordinal d"
    by (simp add: toordinal_def ymd2ord_def days_before_year_def days_before_month_def is_leap_def)
  then have N1: "2299163 \<le> N" by (simp add: N_def)
  have "valid_date \<lparr>year = 9999, month = 12, day = 28\<rparr>"
    by (simp add: valid_date_def valid_ymd_def days_in_month_def)
  from toordinal_mono[OF v this hi] have "toordinal d \<le> 3652056"
    by (simp add: toordinal_def ymd2ord_def days_before_year_def days_before_month_def is_leap_def)
  then have N2: "N \<le> 5373481" by (simp add: N_def)
  have vy: "valid_ymd (year d) (month d) (day d)" using v by (simp add: valid_date_def)
  have jd: "julian_day d = of_int N - 1/2"
    unfolding N_def by (rule julian_day_toordinal) (use vy in \<open>simp_all add: valid_ymd_def\<close>)
  from solar_coords_returns[OF jcent_range[OF v]]
  obtain M lam dec alpha where
    sc: "solar_coords (jd_to_jcent (julian_day d))
           = Inr (M, lam, dec, alpha, deg2rad (obliquity_deg (jd_to_jcent (julian_day d))))"
    and dc: "0 < cos dec"
    by blast
  have cd: "cos dec \<noteq> 0" using dc by simp
  define H where "H = arccos (min 1 (max (-1)
     ((sin (deg2rad (-0.833)) - sin (deg2rad lat_deg) * sin dec)
      / (cos (deg2rad lat_deg) * cos dec))))"
  have ha: "hour_angle (deg2rad lat_deg) dec (-0.833) = Inr H"
    unfolding H_def by (rule hour_angle_returns(1)[OF cl cd])
  have H: "0 \<le> H" "H \<le> pi"
    unfolding H_def by (rule hour_angle_returns(2)[OF cl cd], rule hour_angle_returns(3)[OF cl cd])
  define Jt where "Jt = solar_transit_jd (julian_day d) (deg2rad (- lon_deg))"
  define T where "T = rad2deg H / 360"
  have T: "0 \<le> T" "T \<le> 1 / 2" unfolding T_def by (rule rad2deg_turns[OF H])+
  have "julian_day d - 1 \<le> Jt" "Jt \<le> julian_day d + 1"
    unfolding Jt_def by (rule solar_transit_jd_lower, rule solar_transit_jd_upper)
  then have Jt: "of_int N - 3 / 2 \<le> Jt" "Jt \<le> of_int N + 1 / 2"
    unfolding jd by linarith+
  have rng: "2299161 \<le> \<lfloor>x + 0.5\<rfloor> \<and> \<lfloor>x + 0.5\<rfloor> \<le> 5373482"
    if "Jt - 1 / 2 \<le> x" "x \<le> Jt + 1 / 2" for x
  proof -
    have "of_int (N - 2) \<le> x + 0.5" using that Jt by simp
    then have "N - 2 \<le> \<lfloor>x + 0.5\<rfloor>" by (simp only: le_floor_iff)
    moreover have "x + 0.5 < of_int (N + 1) + 1" using that Jt by simp
    then have "\<lfloor>x + 0.5\<rfloor> < N + 1 + 1" by (simp only: floor_less_iff of_int_add of_int_1)
    ultimately show ?thesis using N1 N2 by linarith
  qed
  have r1: "2299161 \<le> \<lfloor>(Jt - T) + 0.5\<rfloor>" "\<lfloor>(Jt - T) + 0.5\<rfloor> \<le> 5373482"
    using rng[of "Jt - T"] T by simp_all
  have r2: "2299161 \<le> \<lfloor>(Jt + T) + 0.5\<rfloor>" "\<lfloor>(Jt + T) + 0.5\<rfloor> \<le> 5373482"
    using rng[of "Jt + T"] T by simp_all
  from jd_to_utc_datetime_returns[OF r1] obtain u1 where
    u1: "jd_to_utc_datetime (Jt - T) = Inr u1" "86400 * 577736 \<le> u1" "u1 \<le> 86400 * 3652058"
    by blast
  from jd_to_utc_datetime_returns[OF r2] obtain u2 where
    u2: "jd_to_utc_datetime (Jt + T) = Inr u2" "86400 * 577736 \<le> u2" "u2 \<le> 86400 * 3652058"
    by blast
  have "sunrise_sunset_local d lat_deg lon_deg (\<lambda>t. offset) = Inr (u1 + offset, u2 + offset)"
    unfolding sunrise_sunset_local_steps[OF sc ha] Jt_def[symmetric] T_def[symmetric]
    by (simp add: u1(1) u2(1) astimezone_fixed_returns[OF u1(2,3) off]
        astimezone_fixed_returns[OF u2(2,3) off])
  then show ?thesis by blast
qed

text \<open>
  C1.  For every calendar date and every latitude strictly between -66.5 and +66.5
  degrees (any longitude, any fixed-offset time zone), a pair returned by
  \<open>sunrise_sunset_local\<close> has sunrise strictly before sunset.  For dates from
  1582-10-17 to 9999-12-28 and an offset of at most one day the function does return
  such a pair.
\<close>

theorem sunrise_before_sunset:
  assumes "valid_date d" "-66.5 < lat_deg" "lat_deg < 66.5"
  shows "(\<forall>sr ss. sunrise_sunset_local d lat_deg lon_deg (\<lambda>t. offset) = Inr (sr, ss)
            \<longrightarrow> sr < ss)
       \<and> (date_le \<lparr>year = 1582, month = 10, day = 17\<rparr> d
          \<and> date_le d \<lparr>year = 9999, month = 12, day = 28\<rparr> \<and> \<bar>offset\<bar> \<le> 86400 \<longrightarrow>
            (\<exists>sr ss. sunrise_sunset_local d lat_deg lon_deg (\<lambda>t. offset) = Inr (sr, ss)
               \<and> sr < ss))"
proof (intro conjI allI impI)
  fix sr ss
  assume "sunrise_sunset_local d lat_deg lon_deg (\<lambda>t. offset) = Inr (sr, ss)"
  then show "sr < ss" by (rule rise_lt_set[OF assms])
next
  assume a: "date_le \<lparr>year = 1582, month = 10, day = 17\<rparr> d
          \<and> date_le d \<lparr>year = 9999, month = 12, day = 28\<rparr> \<and> \<bar>offset\<bar> \<le> 86400"
  have cl: "cos (deg2rad lat_deg) \<noteq> 0"
    using cos_latitude_pos[OF assms(2,3)] by simp
  from a sunrise_sunset_local_returns[OF assms(1) cl, of offset lon_deg]
  obtain sr ss where r: "sunrise_sunset_local d lat_deg lon_deg (\<lambda>t. offset) = Inr (sr, ss)"
    by blast
  from rise_lt_set[OF assms r] r
  show "\<exists>sr ss. sunrise_sunset_local d lat_deg lon_deg (\<lambda>t. offset) = Inr (sr, ss) \<and> sr < ss"
    by blast
qed

theorem sunrise_before_sunset_witness:
  "\<exists>sr ss. sunrise_sunset_local \<lparr>year = 2023, month = 4, day = 18\<rparr> 5.4139 118.0385
              (\<lambda>t. 28800) = Inr (sr, ss) \<and> sr < ss"
proof -
  have v: "valid_date \<lparr>year = 2023, month = 4, day = 18\<rparr>"
    by (simp add: valid_date_def valid_ymd_def days_in_month_def)
  have l: "- 66.5 < (5.4139::real)" "(5.4139::real) < 66.5" by simp_all
  have r: "date_le \<lparr>year = 1582, month = 10, day = 17\<rparr> \<lparr>year = 2023, month = 4, day = 18\<rparr>"
    "date_le \<lparr>year = 2023, month = 4, day = 18\<rparr> \<lparr>year = 9999, month = 12, day = 28\<rparr>"
    "\<bar>28800 :: int\<bar> \<le> 86400"
    by (simp_all add: date_le_def)
  from sunrise_before_sunset[OF v l, of "118.0385" 28800] r
  show ?thesis by blast
qed

section \<open>A near-polar input on which the calculator raises\<close>

lemma rad2deg_center:
  "rad2deg (deg2rad k1 * s1 + deg2rad k2 * s2 + deg2rad k3 * s3) = k1 * s1 + k2 * s2 + k3 * s3"
  by (simp add: rad2deg_def deg2rad_def field_simps)

lemma solar_coords_declination:
  assumes "-20 \<le> jc" "jc \<le> 80"
  shows "solar_coords jc =
           Inr (mean_anomaly jc, ecliptic_longitude jc, solar_declination jc,
                py_atan2 (cos (deg2rad (obliquity_deg jc)) * sin (ecliptic_longitude jc))
                  (cos (ecliptic_longitude jc)),
                deg2rad (obliquity_deg jc))"
proof -
  define eps where "eps = deg2rad (obliquity_deg jc)"
  have e: "0 < eps" "eps < pi / 2"
    unfolding eps_def by (rule deg2rad_bounds[OF obliquity_deg_range[OF assms]])+
  have as: "py_asin (sin eps * sin x) = Inr (arcsin (sin eps * sin x))" for x
  proof -
    have "\<bar>sin eps * sin x\<bar> < 1" by (rule arcsin_scaled_sin(1)[OF e]) simp
    then have "- 1 \<le> sin eps * sin x \<and> sin eps * sin x \<le> 1" by linarith
    then show ?thesis by (simp add: py_asin_def)
  qed
  show ?thesis
    unfolding solar_coords_def Let_def obliquity_deg_def[symmetric] eps_def[symmetric] as
      mean_anomaly_def[symmetric] rad2deg_center center_deg_def[symmetric]
      ecliptic_longitude_def[symmetric]
    by (simp add: solar_declination_def eps_def)
qed

lemma pi_ge_3: "3 \<le> pi"
proof -
  have "sin (pi / 6) \<le> pi / 6" by (rule sin_x_le_x) simp
  then show ?thesis by (simp add: sin_30)
qed

lemma three_sines_bound:
  fixes k1 k2 k3 :: real
  assumes "0 \<le> k1" "0 \<le> k2" "0 \<le> k3"
  shows "\<bar>k1 * sin a + k2 * sin b + k3 * sin c\<bar> \<le> k1 + k2 + k3"
proof -
  have "\<bar>k1 * sin a\<bar> \<le> k1 * 1" unfolding abs_mult
    by (rule mult_mono) (use assms in simp_all)
  moreover have "\<bar>k2 * sin b\<bar> \<le> k2 * 1" unfolding abs_mult
    by (rule mult_mono) (use assms in simp_all)
  moreover have "\<bar>k3 * sin c\<bar> \<le> k3 * 1" unfolding abs_mult
    by (rule mult_mono) (use assms in simp_all)
  ultimately show ?thesis by linarith
qed

lemma sin_declination_0100_02_27:
  "sin (solar_declination (jd_to_jcent (julian_day \<lparr>year = 100, month = 2, day = 27\<rparr>)))
     \<le> - (2 / 25)"
proof -
  define jc where "jc = jd_to_jcent (julian_day \<lparr>year = 100, month = 2, day = 27\<rparr>)"
  have jc: "jc = - (1387807 / 73050)"
    by (simp add: jc_def jd_to_jcent_def julian_day_def)
  have p: "3 \<le> pi" "pi < 4" by (rule pi_ge_3, rule pi_less_4)
  have L0: "py_mod (280.46646 + jc * (36000.76983 + jc * 0.0003032)) 360.0
      = 1122034006133197373 / 3335189062500000"
    unfolding jc by (simp add: py_mod_def)
  have "\<bar>center_deg jc\<bar>
      \<le> (1.914602 - jc * (0.004817 + 0.000014 * jc)) + (0.019993 - 0.000101 * jc) + 0.000289"
    unfolding center_deg_def by (rule three_sines_bound) (simp_all add: jc)
  also have "\<dots> \<le> 203 / 100" by (simp add: jc)
  finally have c: "- (203 / 100) \<le> center_deg jc" "center_deg jc \<le> 203 / 100" by linarith+
  define X where "X = 1122034006133197373 / 3335189062500000 + center_deg jc"
  have X: "334 \<le> X" "X \<le> 339" using c by (simp_all add: X_def)
  have "\<lfloor>X / 360\<rfloor> = 0" by (rule floor_between) (use X in simp_all)
  then have m: "py_mod X 360.0 = X" by (simp add: py_mod_def)
  have lam: "ecliptic_longitude jc = deg2rad X"
    unfolding ecliptic_longitude_def L0 X_def[symmetric] m by (rule refl)
  define b where "b = 2 * pi - deg2rad X"
  have b: "b = (360 - X) * pi / 180" by (simp add: b_def deg2rad_def field_simps)
  have "21 * 3 \<le> (360 - X) * pi" by (rule mult_mono) (use X p in simp_all)
  then have b1: "7 / 20 \<le> b" unfolding b by simp
  have "(360 - X) * pi \<le> 26 * 4" by (rule mult_mono) (use X p in simp_all)
  then have b2: "b \<le> 1" unfolding b by simp
  have "5 / 6 * b \<le> sin b" by (rule sin_lower) (use b1 b2 in simp_all)
  then have sb: "7 / 25 \<le> sin b" using b1 by linarith
  have "sin (deg2rad X) = sin (2 * pi - b)" by (simp add: b_def)
  also have "\<dots> = - sin b" by (simp add: sin_diff)
  finally have sl: "sin (ecliptic_longitude jc) \<le> - (7 / 25)" using sb by (simp add: lam)
  have jr: "-20 \<le> jc" "jc \<le> 80" by (simp_all add: jc)
  note o = obliquity_deg_range[OF jr]
  define e where "e = deg2rad (obliquity_deg jc)"
  have "22 * 3 \<le> obliquity_deg jc * pi" by (rule mult_mono) (use o p in simp_all)
  then have e1: "11 / 30 \<le> e" by (simp add: e_def deg2rad_def)
  have "obliquity_deg jc * pi \<le> 24 * 4" by (rule mult_mono) (use o p in simp_all)
  then have e2: "e \<le> 1" by (simp add: e_def deg2rad_def)
  have "5 / 6 * e \<le> sin e" by (rule sin_lower) (use e1 e2 in simp_all)
  then have se: "3 / 10 \<le> sin e" using e1 by linarith
  have eb: "0 < e" "e < pi / 2" unfolding e_def by (rule deg2rad_bounds[OF o])+
  have "\<bar>sin e * sin (ecliptic_longitude jc)\<bar> < 1"
    by (rule arcsin_scaled_sin(1)[OF eb]) simp
  then have "sin (solar_declination jc) = sin e * sin (ecliptic_longitude jc)"
    unfolding solar_declination_def e_def[symmetric] by (intro sin_arcsin) linarith+
  moreover have "sin e * sin (ecliptic_longitude jc) \<le> 3 / 10 * - (7 / 25)"
  proof -
    have "3 / 10 * (7 / 25) \<le> sin e * (- sin (ecliptic_longitude jc))"
      by (rule mult_mono) (use se sl in simp_all)
    then show ?thesis by simp
  qed
  ultimately show ?thesis unfolding jc_def by simp
qed

lemma unclamped_0100_02_27:
  "1 < (sin (deg2rad (-0.833))
         - sin (deg2rad 89)
           * sin (solar_declination (jd_to_jcent (julian_day \<lparr>year = 100, month = 2, day = 27\<rparr>))))
        / (cos (deg2rad 89)
           * cos (solar_declination (jd_to_jcent (julian_day \<lparr>year = 100, month = 2, day = 27\<rparr>))))"
proof -
  define dec where
    "dec = solar_declination (jd_to_jcent (julian_day \<lparr>year = 100, month = 2, day = 27\<rparr>))"
  have sd: "sin dec \<le> - (2 / 25)" unfolding dec_def by (rule sin_declination_0100_02_27)
  have p: "3 \<le> pi" "pi < 4" by (rule pi_ge_3, rule pi_less_4)
  have v: "valid_date \<lparr>year = 100, month = 2, day = 27\<rparr>"
    by (simp add: valid_date_def valid_ymd_def days_in_month_def is_leap_def)
  from solar_coords_returns[OF jcent_range[OF v]]
    solar_coords_declination[OF jcent_range[OF v]]
  have cd: "0 < cos dec" unfolding dec_def by auto
  have sa: "sin (deg2rad (-0.833)) = - sin (deg2rad 0.833)" by (simp add: deg2rad_def)
  have "sin (deg2rad 0.833) \<le> deg2rad 0.833" by (rule sin_x_le_x) (simp add: deg2rad_def)
  also have "\<dots> \<le> 1 / 50" using p by (simp add: deg2rad_def)
  finally have a: "sin (deg2rad 0.833) \<le> 1 / 50" .
  have e89: "deg2rad 89 = pi / 2 - pi / 180" by (simp add: deg2rad_def)
  have g: "sin (pi / 2 - x) = cos x" "cos (pi / 2 - x) = sin x" for x :: real
    by (simp_all add: sin_diff cos_diff)
  have s89: "sin (deg2rad 89) = cos (pi / 180)" by (simp only: e89 g)
  have c89: "cos (deg2rad 89) = sin (pi / 180)" by (simp only: e89 g)
  have "1 - (pi / 180)\<^sup>2 / 2 \<le> cos (pi / 180)" by (rule cos_lower)
  moreover have "(pi / 180)\<^sup>2 \<le> (4 / 180)\<^sup>2"
    by (rule power_mono) (use p in simp_all)
  ultimately have sp: "999 / 1000 \<le> sin (deg2rad 89)" unfolding s89 by (simp add: power2_eq_square)
  have "sin (pi / 180) \<le> pi / 180" by (rule sin_x_le_x) simp
  then have cp1: "cos (deg2rad 89) \<le> 1 / 45" unfolding c89 using p by simp
  have cp0: "0 < cos (deg2rad 89)" unfolding c89 by (rule sin_gt_zero) (use p in simp_all)
  have P1: "cos (deg2rad 89) * cos dec \<le> 1 / 45 * 1"
    by (rule mult_mono) (use cp1 cd in simp_all)
  have P0: "0 < cos (deg2rad 89) * cos dec" using cp0 cd by simp
  have "999 / 1000 * (2 / 25) \<le> sin (deg2rad 89) * (- sin dec)"
    by (rule mult_mono) (use sp sd in simp_all)
  then have "cos (deg2rad 89) * cos dec < sin (deg2rad (-0.833)) - sin (deg2rad 89) * sin dec"
    unfolding sa using a P1 by simp
  then show ?thesis
    unfolding dec_def[symmetric] using P0 by (simp add: less_divide_eq)
qed

text \<open>
  C3 as stated fails in its last part: \<open>sunrise_sunset_local\<close> does not return a value
  for every near-polar input.  On 0100-02-27 at latitude 89 (longitude and zone of the
  site) the declination that \<open>solar_coords\<close> returns makes the unclamped cosine of the
  hour angle greater than 1; the Julian Day of the sunset falls on day number 1757642,
  which \<open>jd_to_utc_datetime\<close> labels 29 February 100 in the Julian calendar, and
  \<open>datetime(100, 2, 29)\<close> raises \<open>ValueError\<close>.  The exception comes from the calendar
  conversion of a day before 1582-10-15, not from the hour angle, which is returned.
\<close>

theorem sunrise_sunset_local_raises:
  "solar_coords (jd_to_jcent (julian_day \<lparr>year = 100, month = 2, day = 27\<rparr>)) =
     Inr (mean_anomaly (jd_to_jcent (julian_day \<lparr>year = 100, month = 2, day = 27\<rparr>)),
          ecliptic_longitude (jd_to_jcent (julian_day \<lparr>year = 100, month = 2, day = 27\<rparr>)),
          solar_declination (jd_to_jcent (julian_day \<lparr>year = 100, month = 2, day = 27\<rparr>)),
          py_atan2
            (cos (deg2rad (obliquity_deg (jd_to_jcent (julian_day \<lparr>year = 100, month = 2, day = 27\<rparr>))))
             * sin (ecliptic_longitude (jd_to_jcent (julian_day \<lparr>year = 100, month = 2, day = 27\<rparr>))))
            (cos (ecliptic_longitude (jd_to_jcent (julian_day \<lparr>year = 100, month = 2, day = 27\<rparr>)))),
          deg2rad (obliquity_deg (jd_to_jcent (julian_day \<lparr>year = 100, month = 2, day = 27\<rparr>))))
   \<and> 1 < (sin (deg2rad (-0.833))
            - sin (deg2rad 89)
              * sin (solar_declination (jd_to_jcent (julian_day \<lparr>year = 100, month = 2, day = 27\<rparr>))))
           / (cos (deg2rad 89)
              * cos (solar_declination (jd_to_jcent (julian_day \<lparr>year = 100, month = 2, day = 27\<rparr>))))
   \<and> sunrise_sunset_local \<lparr>year = 100, month = 2, day = 27\<rparr> 89 118.0385 (\<lambda>t. 28800)
       = Inl ValueError"
proof -
  have v: "valid_date \<lparr>year = 100, month = 2, day = 27\<rparr>"
    by (simp add: valid_date_def valid_ymd_def days_in_month_def is_leap_def)
  show ?thesis
    by (intro conjI solar_coords_declination[OF jcent_range[OF v]] unclamped_0100_02_27
        sunrise_sunset_local_0100_02_27)
qed

section \<open>The hour angle never raises\<close>

text \<open>
  When the unclamped cosine of the hour angle is at least 1 the result is 0, and when
  it is at most -1 the result is \<open>pi\<close>.
\<close>

lemma hour_angle_clamped:
  assumes "cos lat_rad \<noteq> 0" "cos dec \<noteq> 0"
  shows "1 \<le> (sin (deg2rad altitude) - sin lat_rad * sin dec) / (cos lat_rad * cos dec)
           \<Longrightarrow> hour_angle lat_rad dec altitude = Inr 0"
    and "(sin (deg2rad altitude) - sin lat_rad * sin dec) / (cos lat_rad * cos dec) \<le> -1
           \<Longrightarrow> hour_angle lat_rad dec altitude = Inr pi"
proof -
  define u where
    "u = (sin (deg2rad altitude) - sin lat_rad * sin dec) / (cos lat_rad * cos dec)"
  have h: "hour_angle lat_rad dec altitude = Inr (arccos (min 1 (max (-1) u)))"
    unfolding u_def by (rule hour_angle_returns(1)[OF assms])
  show "hour_angle lat_rad dec altitude = Inr 0" if "1 \<le> u"
  proof -
    from that have "min 1 (max (-1) u) = 1" by simp
    then show ?thesis unfolding h by simp
  qed
  show "hour_angle lat_rad dec altitude = Inr pi" if "u \<le> -1"
  proof -
    from that have "min 1 (max (-1) u) = -1" by simp
    then show ?thesis unfolding h by simp
  qed
qed

lemma sin_altitude_bounds:
  "- (1 / 2) \<le> sin (deg2rad (-0.833))" "sin (deg2rad (-0.833)) \<le> 0"
proof -
  define y :: real where "y = 833 * pi / 180000"
  have e: "deg2rad (-0.833) = - y" by (simp add: deg2rad_def y_def)
  have y: "0 \<le> y" "y \<le> 1 / 2" "y \<le> pi"
    using pi_less_4 pi_gt_zero by (simp_all add: y_def)
  have "sin y \<le> y" by (rule sin_x_le_x[OF y(1)])
  moreover have "0 \<le> sin y" by (rule sin_ge_zero[OF y(1,3)])
  ultimately show "- (1 / 2) \<le> sin (deg2rad (-0.833))" "sin (deg2rad (-0.833)) \<le> 0"
    unfolding e using y(2) by simp_all
qed

text \<open>
  C3 (as amended).  \<open>hour_angle\<close> returns a value in \<open>[0, pi]\<close> on every input, but for
  the division by zero when the product of the two cosines is exactly zero: \<open>acos\<close>
  never raises.  So for every latitude and declination whose cosines are nonzero,
  \<open>hour_angle\<close> never raises: the cosine of the hour angle is clamped to \<open>[-1, 1]\<close>
  before \<open>acos\<close> is taken, and a result in \<open>[0, pi]\<close> is returned also when the
  unclamped value lies outside \<open>[-1, 1]\<close> (0 when it is at least 1, \<open>pi\<close> when it is at
  most -1).  In \<open>sunrise_sunset_local\<close>, for every calendar date and every latitude
  with nonzero cosine, \<open>solar_coords\<close> returns a declination on which \<open>hour_angle\<close>
  returns; and for every date from 1582-10-17 to 9999-12-28 (a zone of fixed offset, at
  most one day) \<open>sunrise_sunset_local\<close> returns a pair.
\<close>

theorem hour_angle_never_raises:
  "((\<exists>H. hour_angle lat_rad dec altitude = Inr H \<and> 0 \<le> H \<and> H \<le> pi)
      \<or> (cos lat_rad * cos dec = 0
          \<and> hour_angle lat_rad dec altitude = Inl ZeroDivisionError))
   \<and> (cos lat_rad \<noteq> 0 \<and> cos dec \<noteq> 0 \<longrightarrow>
      (\<exists>H. hour_angle lat_rad dec altitude = Inr H \<and> 0 \<le> H \<and> H \<le> pi
         \<and> (1 \<le> (sin (deg2rad altitude) - sin lat_rad * sin dec) / (cos lat_rad * cos dec)
              \<longrightarrow> H = 0)
         \<and> ((sin (deg2rad altitude) - sin lat_rad * sin dec) / (cos lat_rad * cos dec) \<le> -1
              \<longrightarrow> H = pi)))
   \<and> (valid_date d \<and> cos (deg2rad lat_deg) \<noteq> 0 \<longrightarrow>
        (\<exists>M lam dec' alpha eps H.
           solar_coords (jd_to_jcent (julian_day d)) = Inr (M, lam, dec', alpha, eps)
           \<and> hour_angle (deg2rad lat_deg) dec' (-0.833) = Inr H \<and> 0 \<le> H \<and> H \<le> pi))
   \<and> (valid_date d \<and> cos (deg2rad lat_deg) \<noteq> 0
        \<and> date_le \<lparr>year = 1582, month = 10, day = 17\<rparr> d
        \<and> date_le d \<lparr>year = 9999, month = 12, day = 28\<rparr> \<and> \<bar>offset\<bar> \<le> 86400 \<longrightarrow>
        (\<exists>sr ss. sunrise_sunset_local d lat_deg lon_deg (\<lambda>t. offset) = Inr (sr, ss)))"
proof (intro conjI impI)
  show "(\<exists>H. hour_angle lat_rad dec altitude = Inr H \<and> 0 \<le> H \<and> H \<le> pi)
      \<or> (cos lat_rad * cos dec = 0
          \<and> hour_angle lat_rad dec altitude = Inl ZeroDivisionError)"
  proof (cases "cos lat_rad * cos dec = 0")
    case True
    then show ?thesis by (simp add: hour_angle_def Let_def)
  next
    case False
    then have c: "cos lat_rad \<noteq> 0" "cos dec \<noteq> 0" by simp_all
    from hour_angle_returns[OF c, of altitude] show ?thesis by blast
  qed
next
  assume a: "cos lat_rad \<noteq> 0 \<and> cos dec \<noteq> 0"
  then have c: "cos lat_rad \<noteq> 0" "cos dec \<noteq> 0" by simp_all
  define u where
    "u = (sin (deg2rad altitude) - sin lat_rad * sin dec) / (cos lat_rad * cos dec)"
  define H where "H = arccos (min 1 (max (-1) u))"
  have h: "hour_angle lat_rad dec altitude = Inr H"
    unfolding H_def u_def by (rule hour_angle_returns(1)[OF c])
  have b: "0 \<le> H" "H \<le> pi"
    unfolding H_def u_def
    by (rule hour_angle_returns(2)[OF c], rule hour_angle_returns(3)[OF c])
  have z: "H = 0" if "1 \<le> u"
    using hour_angle_clamped(1)[OF c, of altitude] that h unfolding u_def by simp
  have p: "H = pi" if "u \<le> -1"
    using hour_angle_clamped(2)[OF c, of altitude] that h unfolding u_def by simp
  from h b z p
  show "\<exists>H. hour_angle lat_rad dec altitude = Inr H \<and> 0 \<le> H \<and> H \<le> pi
         \<and> (1 \<le> (sin (deg2rad altitude) - sin lat_rad * sin dec) / (cos lat_rad * cos dec)
              \<longrightarrow> H = 0)
         \<and> ((sin (deg2rad altitude) - sin lat_rad * sin dec) / (cos lat_rad * cos dec) \<le> -1
              \<longrightarrow> H = pi)"
    unfolding u_def by blast
next
  assume a: "valid_date d \<and> cos (deg2rad lat_deg) \<noteq> 0"
  then have v: "valid_date d" and cl: "cos (deg2rad lat_deg) \<noteq> 0" by simp_all
  from solar_coords_returns[OF jcent_range[OF v]]
  obtain M lam dec' alpha where
    sc: "solar_coords (jd_to_jcent (julian_day d))
           = Inr (M, lam, dec', alpha, deg2rad (obliquity_deg (jd_to_jcent (julian_day d))))"
    and dec: "0 < cos dec'"
    by blast
  have cd: "cos dec' \<noteq> 0" using dec by simp
  define H where "H = arccos (min 1 (max (-1)
     ((sin (deg2rad (-0.833)) - sin (deg2rad lat_deg) * sin dec')
      / (cos (deg2rad lat_deg) * cos dec'))))"
  have ha: "hour_angle (deg2rad lat_deg) dec' (-0.833) = Inr H"
    unfolding H_def by (rule hour_angle_returns(1)[OF cl cd])
  have H: "0 \<le> H" "H \<le> pi"
    unfolding H_def by (rule hour_angle_returns(2)[OF cl cd], rule hour_angle_returns(3)[OF cl cd])
  from sc ha H
  show "\<exists>M lam dec' alpha eps H.
           solar_coords (jd_to_jcent (julian_day d)) = Inr (M, lam, dec', alpha, eps)
           \<and> hour_angle (deg2rad lat_deg) dec' (-0.833) = Inr H \<and> 0 \<le> H \<and> H \<le> pi"
    by blast
next
  assume a: "valid_date d \<and> cos (deg2rad lat_deg) \<noteq> 0
        \<and> date_le \<lparr>year = 1582, month = 10, day = 17\<rparr> d
        \<and> date_le d \<lparr>year = 9999, month = 12, day = 28\<rparr> \<and> \<bar>offset\<bar> \<le> 86400"
  then show "\<exists>sr ss. sunrise_sunset_local d lat_deg lon_deg (\<lambda>t. offset) = Inr (sr, ss)"
    by (intro sunrise_sunset_local_returns) simp_all
qed

theorem hour_angle_never_raises_witness:
  "hour_angle (pi / 3) (pi / 3) (-0.833) = Inr pi
   \<and> hour_angle (pi / 3) (- (pi / 3)) (-0.833) = Inr 0
   \<and> (\<exists>M lam dec alpha eps H.
         solar_coords (jd_to_jcent (julian_day \<lparr>year = 100, month = 2, day = 27\<rparr>))
           = Inr (M, lam, dec, alpha, eps)
         \<and> hour_angle (deg2rad 89) dec (-0.833) = Inr H \<and> 0 \<le> H \<and> H \<le> pi)
   \<and> (\<exists>sr ss. sunrise_sunset_local \<lparr>year = 2023, month = 12, day = 21\<rparr> 89 118.0385
                 (\<lambda>t. 28800) = Inr (sr, ss))"
proof -
  have c3: "cos (pi / 3) \<noteq> (0::real)" "cos (- (pi / 3)) \<noteq> (0::real)"
    by (simp_all add: cos_60)
  have s3: "sin (pi / 3) * sin (pi / 3) = (3 / 4 :: real)"
    by (simp add: sin_60)
  have u1: "(sin (deg2rad (-0.833)) - sin (pi / 3) * sin (pi / 3)) / (cos (pi / 3) * cos (pi / 3))
        \<le> (-1 :: real)"
    unfolding s3 using sin_altitude_bounds(2) by (simp add: cos_60)
  have u2: "1 \<le> (sin (deg2rad (-0.833)) - sin (pi / 3) * sin (- (pi / 3)))
                / (cos (pi / 3) * cos (- (pi / 3)))"
    using sin_altitude_bounds(1) by (simp add: cos_60 s3)
  have "0 < cos (deg2rad 89)"
    by (rule cos_gt_zero) (simp_all add: deg2rad_def)
  then have cl: "cos (deg2rad 89) \<noteq> 0" by simp
  have v1: "valid_date \<lparr>year = 100, month = 2, day = 27\<rparr>"
    by (simp add: valid_date_def valid_ymd_def days_in_month_def is_leap_def)
  have v2: "valid_date \<lparr>year = 2023, month = 12, day = 21\<rparr>"
    by (simp add: valid_date_def valid_ymd_def days_in_month_def)
  have r: "date_le \<lparr>year = 1582, month = 10, day = 17\<rparr> \<lparr>year = 2023, month = 12, day = 21\<rparr>"
    "date_le \<lparr>year = 2023, month = 12, day = 21\<rparr> \<lparr>year = 9999, month = 12, day = 28\<rparr>"
    "\<bar>28800 :: int\<bar> \<le> 86400"
    by (simp_all add: date_le_def)
  let ?a = "\<lparr>year = 100, month = 2, day = 27\<rparr>"
  let ?b = "\<lparr>year = 2023, month = 12, day = 21\<rparr>"
  from hour_angle_never_raises[of "pi / 3" "pi / 3" "-0.833" ?b 89 28800 "118.0385"] c3(1) u1
  have 1: "hour_angle (pi / 3) (pi / 3) (-0.833) = Inr pi" by auto
  from hour_angle_never_raises[of "pi / 3" "- (pi / 3)" "-0.833" ?b 89 28800 "118.0385"] c3 u2
  have 2: "hour_angle (pi / 3) (- (pi / 3)) (-0.833) = Inr 0" by auto
  from hour_angle_never_raises[of "pi / 3" "pi / 3" "-0.833" ?a 89 28800 "118.0385"] v1 cl
  have 3: "\<exists>M lam dec alpha eps H.
         solar_coords (jd_to_jcent (julian_day \<lparr>year = 100, month = 2, day = 27\<rparr>))
           = Inr (M, lam, dec, alpha, eps)
         \<and> hour_angle (deg2rad 89) dec (-0.833) = Inr H \<and> 0 \<le> H \<and> H \<le> pi"
    by blast
  from hour_angle_never_raises[of "pi / 3" "pi / 3" "-0.833" ?b 89 28800 "118.0385"] v2 cl r
  have 4: "\<exists>sr ss. sunrise_sunset_local \<lparr>year = 2023, month = 12, day = 21\<rparr> 89 118.0385
                 (\<lambda>t. 28800) = Inr (sr, ss)"
    by blast
  from 1 2 3 4 show ?thesis by blast
qed

section \<open>The Julian Day at midnight and the day of the solar transit\<close>

text \<open>
  \<open>solar_transit_jd\<close> rounds \<open>jd - 2451545.0009 - lw / (2 pi)\<close> to the nearest day, so it
  returns the solar noon nearest to \<open>jd\<close>.  At longitude 0 the midnight value that
  \<open>julian_day\<close> returns lies 0.4991 day after the noon of the day before and 0.5009 day
  before the noon of the date itself: the noon chosen is that of the day before.  With
  the Julian Day at 12:00 UTC it is the noon of the date.
\<close>

lemma py_round_low:
  assumes "0 \<le> f" "f < 1 / 2"
  shows "py_round (of_int k + f) = k"
proof -
  have "\<lfloor>of_int k + f\<rfloor> = k" using assms by (simp add: floor_eq_iff)
  then show ?thesis using assms(2) by (simp add: py_round_def Let_def)
qed

lemma py_round_high:
  assumes "1 / 2 < f" "f < 1"
  shows "py_round (of_int k + f) = k + 1"
proof -
  have "\<lfloor>of_int k + f\<rfloor> = k" using assms by (simp add: floor_eq_iff)
  then show ?thesis using assms(1) by (simp add: py_round_def Let_def)
qed

lemma greenwich_transit_of_midnight:
  "solar_transit_jd (of_int N - 1 / 2) (deg2rad (- 0)) \<le> of_int N - 1 / 2 - 48 / 100"
proof -
  have e: "of_int N - 1 / 2 - 2451545.0009 - deg2rad (- 0) / (2 * pi)
      = of_int (N - 2451546) + (4991 / 10000 :: real)"
    by (simp add: deg2rad_def)
  have n: "py_round (of_int N - 1 / 2 - 2451545.0009 - deg2rad (- 0) / (2 * pi)) = N - 2451546"
    unfolding e by (rule py_round_low) simp_all
  from solar_transit_jd_bounds[of "of_int N - 1 / 2" "deg2rad (- 0)"]
  have "solar_transit_jd (of_int N - 1 / 2) (deg2rad (- 0))
      \<le> 2451545.0009 + deg2rad (- 0) / (2 * pi) + of_int (N - 2451546) + 122 / 10000"
    unfolding n by linarith
  then show ?thesis by (simp add: deg2rad_def)
qed

lemma greenwich_transit_of_noon:
  "\<bar>solar_transit_jd (of_int N) (deg2rad (- 0)) - of_int N\<bar> \<le> 2 / 100"
proof -
  define t where "t = solar_transit_jd (of_int N) (deg2rad (- 0))"
  have e: "of_int N - 2451545.0009 - deg2rad (- 0) / (2 * pi)
      = of_int (N - 2451546) + (9991 / 10000 :: real)"
    by (simp add: deg2rad_def)
  have n: "py_round (of_int N - 2451545.0009 - deg2rad (- 0) / (2 * pi)) = N - 2451546 + 1"
    unfolding e by (rule py_round_high) simp_all
  have q: "2451545.0009 + deg2rad (- 0) / (2 * pi) + of_int (N - 2451546 + 1)
      = of_int N + (9 / 10000 :: real)"
    by (simp add: deg2rad_def)
  from solar_transit_jd_bounds[of "of_int N" "deg2rad (- 0)"]
  have "\<bar>t - (of_int N + 9 / 10000)\<bar> \<le> 122 / 10000"
    unfolding n q t_def .
  then have "\<bar>t - of_int N\<bar> \<le> 2 / 100" by linarith
  then show ?thesis unfolding t_def .
qed

text \<open>
  On the equator the hour angle is less than \<open>2 pi / 3\<close>, so the sunset follows the
  transit by less than a third of a day: at latitude 0 and longitude 0, in UTC, the
  sunset returned for the date \<open>d\<close> lies on the day before \<open>d\<close>.
\<close>

lemma hour_angle_equator_upper:
  assumes dec: "\<bar>dec\<bar> \<le> deg2rad 24"
  shows "arccos (min 1 (max (-1)
           ((sin (deg2rad (-0.833)) - sin (deg2rad 0) * sin dec)
            / (cos (deg2rad 0) * cos dec)))) \<le> 2 * pi / 3"
proof -
  define cu where "cu = (sin (deg2rad (-0.833)) - sin (deg2rad 0) * sin dec)
            / (cos (deg2rad 0) * cos dec)"
  define y :: real where "y = 833 * pi / 180000"
  have pi4: "2 \<le> pi" "pi < 4" by (rule pi_ge_two, rule pi_less_4)
  have db: "\<bar>dec\<bar> \<le> 1" using dec pi4 by (simp add: deg2rad_def)
  have "cos 1 \<le> cos \<bar>dec\<bar>"
    by (rule cos_monotone_0_pi_le) (use db pi4 in simp_all)
  moreover have "1 - 1\<^sup>2 / 2 \<le> cos (1::real)" by (rule cos_lower)
  ultimately have cd: "1 / 2 \<le> cos dec" by simp
  have e: "deg2rad (-0.833) = - y" by (simp add: deg2rad_def y_def)
  have y: "0 \<le> y" "y \<le> 1 / 4" using pi4 by (simp_all add: y_def)
  have "sin y \<le> y" by (rule sin_x_le_x[OF y(1)])
  then have s: "- (1 / 4) \<le> sin (deg2rad (-0.833))" unfolding e using y(2) by simp
  have c: "cu = sin (deg2rad (-0.833)) / cos dec" by (simp add: cu_def deg2rad_def)
  have "- (1 / 2) * cos dec \<le> - (1 / 2) * (1 / 2)" using cd by simp
  also have "\<dots> \<le> sin (deg2rad (-0.833))" using s by simp
  finally have "- (1 / 2) \<le> cu"
    unfolding c using cd by (simp add: le_divide_eq)
  then have m: "- (1 / 2) \<le> min 1 (max (-1) cu)" by simp
  have "arccos (min 1 (max (-1) cu)) \<le> arccos (- (1 / 2))"
    by (rule arccos_le_arccos) (use m in simp_all)
  moreover have "arccos (cos (2 * pi / 3)) = 2 * pi / 3"
    by (rule arccos_cos) (use pi4 in simp_all)
  then have "arccos (- (1 / 2)) = 2 * pi / 3" by (simp add: cos_120)
  ultimately show ?thesis unfolding cu_def by simp
qed

lemma equator_greenwich_sunset:
  assumes v: "valid_date d"
    and lo: "date_le \<lparr>year = 1582, month = 10, day = 17\<rparr> d"
    and hi: "date_le d \<lparr>year = 9999, month = 12, day = 28\<rparr>"
  shows "\<exists>sr ss. sunrise_sunset_local d 0 0 (\<lambda>t. 0) = Inr (sr, ss)
           \<and> 86400 * (toordinal d - 1) \<le> ss \<and> ss < 86400 * toordinal d"
proof -
  define N where "N = toordinal d + 1721425"
  have "valid_date \<lparr>year = 1582, month = 10, day = 17\<rparr>"
    by (simp add: valid_date_def valid_ymd_def days_in_month_def)
  from toordinal_mono[OF this v lo] have "577738 \<le> toordinal d"
    by (simp add: toordinal_def ymd2ord_def days_before_year_def days_before_month_def is_leap_def)
  then have N1: "2299163 \<le> N" by (simp add: N_def)
  have "valid_date \<lparr>year = 9999, month = 12, day = 28\<rparr>"
    by (simp add: valid_date_def valid_ymd_def days_in_month_def)
  from toordinal_mono[OF v this hi] have "toordinal d \<le> 3652056"
    by (simp add: toordinal_def ymd2ord_def days_before_year_def days_before_month_def is_leap_def)
  then have N2: "N \<le> 5373481" by (simp add: N_def)
  have vy: "valid_ymd (year d) (month d) (day d)" using v by (simp add: valid_date_def)
  have jd: "julian_day d = of_int N - 1 / 2"
    unfolding N_def by (rule julian_day_toordinal) (use vy in \<open>simp_all add: valid_ymd_def\<close>)
  have cl: "cos (deg2rad 0) \<noteq> 0" by (simp add: deg2rad_def)
  have off: "\<bar>0 :: int\<bar> \<le> 86400" by simp
  from sunrise_sunset_local_returns[OF v cl lo hi off, of 0]
  obtain sr ss where r: "sunrise_sunset_local d 0 0 (\<lambda>t. 0) = Inr (sr, ss)" by blast
  note jc = jcent_range[OF v]
  from solar_coords_returns[OF jc]
  obtain M lam dec alpha where
    sc: "solar_coords (jd_to_jcent (julian_day d))
           = Inr (M, lam, dec, alpha, deg2rad (obliquity_deg (jd_to_jcent (julian_day d))))"
    and de: "\<bar>dec\<bar> \<le> deg2rad (obliquity_deg (jd_to_jcent (julian_day d)))"
    and dc: "0 < cos dec"
    by blast
  have "obliquity_deg (jd_to_jcent (julian_day d)) * pi \<le> 24 * pi"
    by (rule mult_right_mono) (use obliquity_deg_range(2)[OF jc] in simp_all)
  then have "deg2rad (obliquity_deg (jd_to_jcent (julian_day d))) \<le> deg2rad 24"
    by (simp add: deg2rad_def)
  with de have dec: "\<bar>dec\<bar> \<le> deg2rad 24" by linarith
  have cd: "cos dec \<noteq> 0" using dc by simp
  define H where "H = arccos (min 1 (max (-1)
     ((sin (deg2rad (-0.833)) - sin (deg2rad 0) * sin dec)
      / (cos (deg2rad 0) * cos dec))))"
  have ha: "hour_angle (deg2rad 0) dec (-0.833) = Inr H"
    unfolding H_def by (rule hour_angle_returns(1)[OF cl cd])
  have H: "0 \<le> H" "H \<le> 2 * pi / 3"
    unfolding H_def by (rule hour_angle_returns(2)[OF cl cd], rule hour_angle_equator_upper[OF dec])
  define Jt where "Jt = solar_transit_jd (julian_day d) (deg2rad (- 0))"
  define T where "T = rad2deg H / 360"
  have Te: "T = H / (2 * pi)" by (simp add: T_def rad2deg_def)
  have T0: "0 \<le> T" unfolding Te using H(1) by simp
  have "H / (2 * pi) \<le> 1 / 3" using H(2) by (simp add: field_simps)
  then have T1: "T \<le> 1 / 3" unfolding Te .
  have Jl: "julian_day d - 1 \<le> Jt" unfolding Jt_def by (rule solar_transit_jd_lower)
  have Ju: "Jt \<le> of_int N - 1 / 2 - 48 / 100"
    unfolding Jt_def jd by (rule greenwich_transit_of_midnight)
  define J where "J = Jt + T"
  have Jb: "of_int N - 3 / 2 \<le> J" "J \<le> of_int N - 64 / 100"
    using Jl Ju T0 T1 unfolding J_def jd by linarith+
  from sunrise_sunset_local_steps[OF sc ha, of 0 "\<lambda>t. 0"] r
  obtain u2 where
    u: "jd_to_utc_datetime J = Inr u2" "astimezone_naive (\<lambda>t. 0) u2 = Inr ss"
    unfolding Jt_def[symmetric] T_def[symmetric] J_def
    by (auto split: sum.splits)
  define Z where "Z = \<lfloor>J + 0.5\<rfloor>"
  have "of_int (N - 1) \<le> J + 0.5" using Jb(1) by simp
  then have Z1: "N - 1 \<le> Z" unfolding Z_def by (simp only: le_floor_iff)
  have "J + 0.5 < of_int N" using Jb(2) by simp
  then have Z2: "Z < N" unfolding Z_def by (simp only: floor_less_iff)
  have J0: "0 \<le> J + 0.5" using Jb(1) N1 by simp
  from jd_to_utc_datetime_value[OF J0 u(1)] obtain y m d' where
    c: "civil_of_jdn Z = (y, m, d')"
    and t: "u2 = 86400 * ymd2ord y m d' + py_round ((J + 0.5 - of_int Z) * 86400)"
    unfolding Z_def by blast
  from civil_of_jdn_valid[of Z] Z1 Z2 N1 N2 c
  have o: "ymd2ord y m d' = Z - 1721425" by auto
  have "of_int (py_round ((J + 0.5 - of_int Z) * 86400))
      \<le> (J + 0.5 - of_int Z) * 86400 + 1 / 2"
    by (rule py_round_near)
  also have "\<dots> = 86400 * J + 43200 - 86400 * of_int Z + 1 / 2" by (simp add: algebra_simps)
  finally have p: "of_int (py_round ((J + 0.5 - of_int Z) * 86400))
      \<le> 86400 * J + 43200 - 86400 * of_int Z + 1 / 2" .
  have "real_of_int u2 = 86400 * of_int Z - 86400 * 1721425
      + of_int (py_round ((J + 0.5 - of_int Z) * 86400))"
    unfolding t o by simp
  also have "\<dots> \<le> 86400 * J + 43200 + 1 / 2 - 86400 * 1721425" using p by linarith
  also have "\<dots> < 86400 * of_int N - 86400 * 1721425" using Jb(2) by linarith
  also have "\<dots> = of_int (86400 * toordinal d)" by (simp add: N_def)
  finally have "u2 < 86400 * toordinal d" by (simp only: of_int_less_iff)
  moreover have "86400 * (toordinal d - 1) \<le> u2"
  proof -
    have "of_int Z \<le> J + 0.5" unfolding Z_def by linarith
    then have "0 \<le> (J + 0.5 - of_int Z) * 86400" by simp
    moreover have "(J + 0.5 - of_int Z) * 86400 - 1 / 2
        \<le> of_int (py_round ((J + 0.5 - of_int Z) * 86400))"
      by (rule py_round_near)
    ultimately have "- 1 < real_of_int (py_round ((J + 0.5 - of_int Z) * 86400))" by linarith
    then have "0 \<le> py_round ((J + 0.5 - of_int Z) * 86400)" by linarith
    then show ?thesis unfolding t o using Z1 by (simp add: N_def)
  qed
  moreover have "ss = u2 + 0" by (rule astimezone_fixed[OF u(2)])
  ultimately show ?thesis using r by simp
qed

text \<open>
  C2.  \<open>julian_day\<close> does not return the Julian Day at 12:00 UTC of the date: on
  2000-01-01 that is 2451545 (the epoch J2000.0 that \<open>jd_to_jcent\<close> subtracts) and
  \<open>julian_day\<close> returns 2451544.5, the Julian Day at 00:00 UTC.  With this value
  \<open>solar_transit_jd\<close> at longitude 0 returns the solar noon of 1999-12-31 (Julian Day
  2451544), and the sunset that \<open>sunrise_sunset_local\<close> returns for 2000-01-01 at
  latitude 0 and longitude 0, in UTC, lies on 1999-12-31 (2000-01-01 is day 730120);
  with the Julian Day at 12:00 UTC the transit is within 0.02 day of the noon of
  2000-01-01.
\<close>

theorem julian_day_selects_previous_day:
  "julian_day \<lparr>year = 2000, month = 1, day = 1\<rparr> = 2451544.5
   \<and> spec_julian_day_noon \<lparr>year = 2000, month = 1, day = 1\<rparr> = 2451545
   \<and> solar_transit_jd (julian_day \<lparr>year = 2000, month = 1, day = 1\<rparr>) (deg2rad (- 0))
       \<le> 2451544.02
   \<and> \<bar>solar_transit_jd (spec_julian_day_noon \<lparr>year = 2000, month = 1, day = 1\<rparr>)
        (deg2rad (- 0)) - 2451545\<bar> \<le> 0.02
   \<and> toordinal \<lparr>year = 2000, month = 1, day = 1\<rparr> = 730120
   \<and> (\<exists>sr ss. sunrise_sunset_local \<lparr>year = 2000, month = 1, day = 1\<rparr> 0 0 (\<lambda>t. 0)
                  = Inr (sr, ss)
          \<and> 86400 * 730119 \<le> ss \<and> ss < 86400 * 730120)"
proof -
  let ?d = "\<lparr>year = 2000, month = 1, day = 1\<rparr>"
  have o: "toordinal ?d = 730120"
    by (simp add: toordinal_def ymd2ord_def days_before_year_def days_before_month_def
        is_leap_def)
  have n: "spec_julian_day_noon ?d = of_int 2451545"
    by (simp add: spec_julian_day_noon_def o)
  have v: "valid_date ?d"
    by (simp add: valid_date_def valid_ymd_def days_in_month_def)
  have j: "julian_day ?d = of_int 2451545 - 1 / 2"
    unfolding julian_day_is_midnight[OF v] n ..
  have r: "date_le \<lparr>year = 1582, month = 10, day = 17\<rparr> ?d"
    "date_le ?d \<lparr>year = 9999, month = 12, day = 28\<rparr>"
    by (simp_all add: date_le_def)
  have 1: "julian_day ?d = 2451544.5" unfolding j by simp
  have 2: "spec_julian_day_noon ?d = 2451545" unfolding n by simp
  have 3: "solar_transit_jd (julian_day ?d) (deg2rad (- 0)) \<le> 2451544.02"
    unfolding j using greenwich_transit_of_midnight[of 2451545] by simp
  have 4: "\<bar>solar_transit_jd (spec_julian_day_noon ?d) (deg2rad (- 0)) - 2451545\<bar> \<le> 0.02"
    unfolding n using greenwich_transit_of_noon[of 2451545] by simp
  from equator_greenwich_sunset[OF v r]
  have 5: "\<exists>sr ss. sunrise_sunset_local ?d 0 0 (\<lambda>t. 0) = Inr (sr, ss)
          \<and> 86400 * 730119 \<le> ss \<and> ss < 86400 * 730120"
    unfolding o by simp
  from 1 2 3 4 o 5 show ?thesis by (intro conjI)
qed

end
